theory Spec2Isabelle
  imports Complex_Main "HOL-Library.AList" "HOL-Library.Char_ord" "HOL-Library.List_Lexorder"
begin

section \<open>Python values shared by the modules\<close>

text \<open>
  The exceptions the modelled code can raise. \<open>ValueError\<close> carries its message, since
  \<^verbatim>\<open>trainer.py\<close> raises it in two places: explicitly when the dataset yields no batch, and
  implicitly when \<^verbatim>\<open>a, b = zip(*data)\<close> has nothing to unpack.
\<close>

datatype error =
    ValueError string
  | ZeroDivisionError
  | UnboundLocalError string
  | TypeError string
  | KeyError string

type_synonym text_pair = "string \<times> string"

text \<open>
  A \<^verbatim>\<open>dict\<close> with string keys is an association list in insertion order;
  \<^verbatim>\<open>d[k] = v\<close> is \<^const>\<open>AList.update\<close>: it overwrites in place when the key exists and
  appends otherwise. Python floats are idealised as reals (rounding is not modelled).
\<close>

type_synonym logs = "(string \<times> real) list"

definition START_TOKEN :: string where "START_TOKEN = ''<start>''"
definition END_TOKEN :: string where "END_TOKEN = ''<end>''"
definition OOV_TOKEN :: string where "OOV_TOKEN = ''<unk>''"

section \<open>Library functions used by \<^verbatim>\<open>Trainer._create_tokenizers\<close>\<close>

subsection \<open>\<^verbatim>\<open>str.split()\<close>\<close>

text \<open>
  Characters are the code points below 256; \<open>isspace\<close> holds for those of them that
  Python's \<^verbatim>\<open>str.isspace\<close> accepts: 9 to 13, 28 to 32, 133 and 160.
\<close>

definition isspace :: "char \<Rightarrow> bool" where
  "isspace c = (let n = (of_char c :: nat) in
     (9 \<le> n \<and> n \<le> 13) \<or> (28 \<le> n \<and> n \<le> 32) \<or> n = 133 \<or> n = 160)"

text \<open>
  \<^verbatim>\<open>s.split()\<close> with no argument: the maximal runs of non-whitespace characters, in order.
  \<open>split_acc cur s\<close> scans \<open>s\<close> with the token under construction in \<open>cur\<close>.
\<close>

fun split_acc :: "string \<Rightarrow> string \<Rightarrow> string list" where
  "split_acc cur [] = (if cur = [] then [] else [cur])"
| "split_acc cur (c # cs) =
     (if isspace c then (if cur = [] then split_acc [] cs else cur # split_acc [] cs)
      else split_acc (cur @ [c]) cs)"

definition split :: "string \<Rightarrow> string list" where
  "split s = split_acc [] s"

subsection \<open>\<^verbatim>\<open>collections.Counter\<close>\<close>

text \<open>
  A Counter is a dict from element to count, in first-seen order.
  \<^verbatim>\<open>Counter.update(iterable)\<close> adds one to the count of each element in turn.
\<close>

type_synonym counter = "(string \<times> nat) list"

definition counter_add :: "counter \<Rightarrow> string \<Rightarrow> counter" where
  "counter_add cnt w = AList.update w (case map_of cnt w of None \<Rightarrow> 1 | Some n \<Rightarrow> Suc n) cnt"

definition counter_update :: "counter \<Rightarrow> string list \<Rightarrow> counter" where
  "counter_update cnt ws = foldl counter_add cnt ws"

text \<open>
  \<^verbatim>\<open>Counter.most_common(n)\<close> is \<^verbatim>\<open>heapq.nlargest(n, items, key=count)\<close>, which is
  \<^verbatim>\<open>sorted(items, key=count, reverse=True)[:n]\<close>: a stable sort by descending count (equal
  counts keep their first-seen order), cut to the first \<open>n\<close>; empty when \<open>n \<le> 0\<close>.
\<close>

definition most_common :: "counter \<Rightarrow> int \<Rightarrow> (string \<times> nat) list" where
  "most_common cnt n = take (nat n) (sort_key (\<lambda>tc. - int (snd tc)) cnt)"

subsection \<open>\<^verbatim>\<open>keras_preprocessing.text.Tokenizer\<close>\<close>

text \<open>
  The Keras tokenizer is a third-party class; what follows is its documented behaviour for
  the configuration the trainer constructs (\<^verbatim>\<open>lower=False\<close>, \<^verbatim>\<open>split=' '\<close>, word level,
  no \<^verbatim>\<open>num_words\<close>). \<^verbatim>\<open>text_to_word_sequence\<close> replaces every character of \<open>filters\<close> by a
  space, splits at single spaces and drops the empty pieces.
\<close>

record Tokenizer =
  oov_token :: "string option"
  filters :: string
  word_counts :: "(string \<times> nat) list"
  word_index :: "(string \<times> nat) list"

definition new_Tokenizer :: "string option \<Rightarrow> string \<Rightarrow> Tokenizer" where
  "new_Tokenizer oov flt = \<lparr>oov_token = oov, filters = flt, word_counts = [], word_index = []\<rparr>"

fun split_on :: "char \<Rightarrow> string \<Rightarrow> string \<Rightarrow> string list" where
  "split_on sep cur [] = [cur]"
| "split_on sep cur (c # cs) =
     (if c = sep then cur # split_on sep [] cs else split_on sep (cur @ [c]) cs)"

definition text_to_word_sequence :: "string \<Rightarrow> string \<Rightarrow> string list" where
  "text_to_word_sequence text flt =
     (let translated = map (\<lambda>c. if c \<in> set flt then CHR '' '' else c) text
      in filter (\<lambda>i. i \<noteq> []) (split_on (CHR '' '') [] translated))"

text \<open>\<^verbatim>\<open>dict(zip(keys, values))\<close>: pairs are stored in order, a repeated key keeps its first
  position and takes the last value.\<close>

definition dict_of :: "(string \<times> nat) list \<Rightarrow> (string \<times> nat) list" where
  "dict_of kvs = foldl (\<lambda>d kv. AList.update (fst kv) (snd kv) d) [] kvs"

text \<open>
  \<^verbatim>\<open>fit_on_texts\<close>: count the words of every text, sort the counted words by descending
  count (stable), put the out-of-vocabulary token first when there is one, and number the
  resulting list from 1; index 0 is reserved for padding and never stored.
\<close>

definition fit_on_texts :: "Tokenizer \<Rightarrow> string list \<Rightarrow> Tokenizer" where
  "fit_on_texts tk texts =
     (let wc = foldl (\<lambda>cnt text. counter_update cnt (text_to_word_sequence text (filters tk)))
                 (word_counts tk) texts;
          wcounts = sort_key (\<lambda>x. - int (snd x)) wc;
          sorted_voc = (case oov_token tk of None \<Rightarrow> [] | Some oov \<Rightarrow> [oov]) @ map fst wcounts
      in tk\<lparr>word_counts := wc,
            word_index := dict_of (zip sorted_voc [1 ..< length sorted_voc + 1])\<rparr>)"

section \<open>\<^verbatim>\<open>headliner/trainer.py\<close>\<close>

subsection \<open>Objects\<close>

text \<open>
  \<^verbatim>\<open>Vectorizer(tokenizer_encoder, tokenizer_decoder)\<close> holds the two tokenizers; a
  preprocessor is a callable on text pairs.
\<close>

record Vectorizer =
  tokenizer_encoder :: Tokenizer
  tokenizer_decoder :: Tokenizer

type_synonym preprocessor_fn = "text_pair \<Rightarrow> text_pair"

text \<open>
  The summarizer as the trainer sees it: the two nullable attributes it tests, the
  embedding size it reads, and the network itself (\<open>'w\<close>), which only the collaborators
  touch.
\<close>

record 'w Summarizer =
  preprocessor :: "preprocessor_fn option"
  vectorizer :: "Vectorizer option"
  embedding_size :: nat
  network :: 'w

text \<open>The attributes of \<^verbatim>\<open>Trainer\<close> that \<^verbatim>\<open>train\<close> and its helpers read.\<close>

record Trainer =
  batch_size :: int
  max_vocab_size :: int
  glove_path :: "string option"
  steps_per_epoch :: int
  model_save_path :: string
  self_preprocessor :: preprocessor_fn
  self_vectorizer :: "Vectorizer option"

text \<open>
  What the run does to the outside world, in order: the lines it logs and the calls it
  makes on the summarizer and the callbacks.
\<close>

datatype event =
    Log_bare_model
  | Log_initialized_model
  | Log_vocab nat nat
  | Call_init_model
  | Log_batch int int logs
  | Call_on_epoch_end nat int logs
  | Call_save string
  | Log_finished int

text \<open>
  The collaborators outside this module, taken as parameters:
  \<^item> \<open>train_step\<close>: \<^verbatim>\<open>summarizer.train_step\<close> on one batch (with the initial encoder states
    and the loss function, which are the same for every batch), one optimisation step giving
    the new network and the loss;
  \<^item> \<open>on_epoch_end\<close>: a callback's hook on the summarizer, the epoch index and the logs; it
    may raise, and otherwise gives the callback and the logs as it left them;
  \<^item> \<open>standard_callbacks\<close>: the list \<^verbatim>\<open>[EvaluationCallback, ValidationCallback,
    ModelCheckpointCallback, TensorBoard]\<close> built for the validation data;
  \<^item> \<open>build_network\<close>: what \<^verbatim>\<open>summarizer.init_model\<close> does to the network;
  \<^item> \<open>read_glove\<close>, \<open>embedding_to_matrix\<close>: the embedding helpers;
  \<^item> \<open>dataset\<close>: the batches that pass number \<open>k\<close> over
    \<^verbatim>\<open>train_dataset.take(-1)\<close> yields (preprocessing, vectorizing, bucketing and batching
    of the training data, re-run on every pass);
  \<^item> \<open>list_of\<close>: the order in which \<^verbatim>\<open>list(s)\<close> enumerates a set of strings (it depends on
    the interpreter's string hashing).
\<close>

record ('w, 'b, 'c) collaborators =
  train_step :: "'w \<Rightarrow> 'b \<Rightarrow> 'w \<times> real"
  on_epoch_end :: "'c \<Rightarrow> 'w Summarizer \<Rightarrow> int \<Rightarrow> logs \<Rightarrow> error + ('c \<times> logs)"
  standard_callbacks :: "text_pair list \<Rightarrow> 'c list"
  build_network :: "'w \<Rightarrow> Vectorizer \<Rightarrow> real list list option \<Rightarrow> real list list option \<Rightarrow> 'w"
  read_glove :: "string \<Rightarrow> nat \<Rightarrow> (string \<times> real list) list"
  embedding_to_matrix :: "(string \<times> real list) list \<Rightarrow> (string \<times> nat) list \<Rightarrow> nat \<Rightarrow> real list list"
  dataset :: "preprocessor_fn \<Rightarrow> Vectorizer \<Rightarrow> text_pair list \<Rightarrow> nat \<Rightarrow> 'b list"
  list_of :: "string set \<Rightarrow> string list"

text \<open>The local variables of \<^verbatim>\<open>train\<close>; \<open>train_callbacks = None\<close> is the unbound name.\<close>

record ('w, 'c) train_state =
  summarizer :: "'w Summarizer"
  train_callbacks :: "'c list option"
  logs :: logs
  epoch_count :: int
  batch_count :: int
  trace :: "event list"

text \<open>How a run ends: it returns, it raises, or the fuel of the model runs out first. Each
  carries the state reached.\<close>

datatype 's outcome =
    is_Returned: Returned (state_of: 's)
  | is_Raised: Raised (raised: error) (state_of: 's)
  | is_OutOfFuel: OutOfFuel (state_of: 's)

subsection \<open>\<^verbatim>\<open>Trainer._create_tokenizers\<close>\<close>

text \<open>
  \<^verbatim>\<open>a, b = zip(*pairs)\<close>: the firsts and the seconds of a non-empty sequence of pairs; on an
  empty one \<^verbatim>\<open>zip()\<close> yields nothing and the unpacking raises \<^verbatim>\<open>ValueError\<close>.
\<close>

definition unzip_pairs :: "text_pair list \<Rightarrow> error + (string list \<times> string list)" where
  "unzip_pairs pairs =
     (if pairs = [] then Inl (ValueError ''not enough values to unpack (expected 2, got 0)'')
      else Inr (map fst pairs, map snd pairs))"

definition create_tokenizers ::
  "(string set \<Rightarrow> string list) \<Rightarrow> Trainer \<Rightarrow> text_pair list \<Rightarrow> error + (Tokenizer \<times> Tokenizer)" where
  "create_tokenizers list_of_set self train_data_preprocessed =
     (case unzip_pairs train_data_preprocessed of
        Inl e \<Rightarrow> Inl e
      | Inr (train_text_encoder, train_text_decoder) \<Rightarrow>
          (let counter_encoder = foldl (\<lambda>cnt text. counter_update cnt (split text)) [] train_text_encoder;
               counter_decoder = foldl (\<lambda>cnt text. counter_update cnt (split text)) [] train_text_decoder;
               tokens_encoder = fst ` set (most_common counter_encoder (max_vocab_size self))
                                  \<union> {START_TOKEN, END_TOKEN};
               tokens_decoder = fst ` set (most_common counter_decoder (max_vocab_size self))
                                  \<union> {START_TOKEN, END_TOKEN};
               tok_encoder = new_Tokenizer (Some OOV_TOKEN) [];
               tok_decoder = new_Tokenizer (Some OOV_TOKEN) []
           in Inr (fit_on_texts tok_encoder (sort (list_of_set tokens_encoder)),
                   fit_on_texts tok_decoder (sort (list_of_set tokens_decoder)))))"

subsection \<open>\<^verbatim>\<open>Trainer._init_model\<close>\<close>

text \<open>
  Modelled from the spec: \<^verbatim>\<open>Summarizer.init_model\<close> is not among the sources; by section 4.6
  initialisation attaches the preprocessor and the vectorizer to the model. The network it
  builds from them and the embedding weights is the collaborator \<open>build_network\<close>.
\<close>

definition summarizer_init_model ::
  "('w, 'b, 'c) collaborators \<Rightarrow> 'w Summarizer \<Rightarrow> preprocessor_fn \<Rightarrow> Vectorizer \<Rightarrow>
     real list list option \<Rightarrow> real list list option \<Rightarrow> 'w Summarizer" where
  "summarizer_init_model D s p v ee ed =
     s\<lparr>preprocessor := Some p, vectorizer := Some v,
       network := build_network D (network s) v ee ed\<rparr>"

definition init_model ::
  "('w, 'b, 'c) collaborators \<Rightarrow> Trainer \<Rightarrow> 'w Summarizer \<Rightarrow> text_pair list \<Rightarrow>
     (error \<times> event list) + ('w Summarizer \<times> event list)" where
  "init_model D self summ train_data =
     (case self_vectorizer self of
        Some v \<Rightarrow>
          Inr (summarizer_init_model D summ (self_preprocessor self) v None None, [Call_init_model])
      | None \<Rightarrow>
          (let train_preprocessed = map (self_preprocessor self) train_data in
           case create_tokenizers (list_of D) self train_preprocessed of
             Inl e \<Rightarrow> Inl (e, [])
           | Inr (tok_encoder, tok_decoder) \<Rightarrow>
               (let v = \<lparr>tokenizer_encoder = tok_encoder, tokenizer_decoder = tok_decoder\<rparr>;
                    embedding_weights =
                      (case glove_path self of
                         None \<Rightarrow> (None, None)
                       | Some path \<Rightarrow>
                           (let embedding = read_glove D path (embedding_size summ) in
                            (Some (embedding_to_matrix D embedding (word_index tok_encoder)
                                     (embedding_size summ)),
                             Some (embedding_to_matrix D embedding (word_index tok_decoder)
                                     (embedding_size summ)))))
                in Inr (summarizer_init_model D summ (self_preprocessor self) v
                          (fst embedding_weights) (snd embedding_weights),
                        [Log_vocab (length (word_index tok_encoder))
                                   (length (word_index tok_decoder)),
                         Call_init_model]))))"

subsection \<open>The training loop of \<^verbatim>\<open>Trainer.train\<close>\<close>

text \<open>
  \<^verbatim>\<open>for callback in train_callbacks: callback.on_epoch_end(epoch_count, logs=logs)\<close>.
  The result is the exception raised, if any, the callbacks and the logs as the hooks left
  them, and the calls made; \<open>i\<close> is the position of the next callback in the list.
\<close>

fun run_callbacks ::
  "('w, 'b, 'c) collaborators \<Rightarrow> 'w Summarizer \<Rightarrow> int \<Rightarrow> nat \<Rightarrow> 'c list \<Rightarrow> logs \<Rightarrow>
     error option \<times> 'c list \<times> logs \<times> event list" where
  "run_callbacks D summ epoch i [] lg = (None, [], lg, [])"
| "run_callbacks D summ epoch i (c # cs) lg =
     (case on_epoch_end D c summ epoch lg of
        Inl e \<Rightarrow> (Some e, c # cs, lg, [Call_on_epoch_end i epoch lg])
      | Inr (c', lg') \<Rightarrow>
          (case run_callbacks D summ epoch (Suc i) cs lg' of
             (r, cs', lg'', evs) \<Rightarrow> (r, c' # cs', lg'', Call_on_epoch_end i epoch lg # evs)))"

text \<open>The body of the \<^verbatim>\<open>for\<close> loop, for one batch.\<close>

definition train_batch ::
  "('w, 'b, 'c) collaborators \<Rightarrow> Trainer \<Rightarrow> ('w, 'c) train_state \<Rightarrow> 'b \<Rightarrow>
     ('w, 'c) train_state outcome" where
  "train_batch D self st b =
     (let bc = batch_count st + 1;
          stepped = train_step D (network (summarizer st)) b;
          summ = (summarizer st)\<lparr>network := fst stepped\<rparr>;
          lg = AList.update ''loss'' (snd stepped) (logs st);
          st1 = st\<lparr>summarizer := summ, logs := lg, batch_count := bc,
                  trace := trace st @ [Log_batch (epoch_count st) bc lg]\<rparr>
      in if steps_per_epoch self = 0 then Raised ZeroDivisionError st1
         else if bc mod steps_per_epoch self = 0 then
           (case train_callbacks st1 of
              None \<Rightarrow> Raised (UnboundLocalError ''train_callbacks'') st1
            | Some cbs \<Rightarrow>
                (case run_callbacks D summ (epoch_count st1) 0 cbs lg of
                   (Some e, cbs', lg', evs) \<Rightarrow>
                     Raised e (st1\<lparr>train_callbacks := Some cbs', logs := lg',
                                   trace := trace st1 @ evs\<rparr>)
                 | (None, cbs', lg', evs) \<Rightarrow>
                     Returned (st1\<lparr>train_callbacks := Some cbs', logs := lg',
                                    epoch_count := epoch_count st1 + 1,
                                    trace := trace st1 @ evs @ [Call_save (model_save_path self)]\<rparr>)))
         else Returned st1)"

text \<open>The \<^verbatim>\<open>for\<close> loop over the batches of one pass.\<close>

fun train_pass ::
  "('w, 'b, 'c) collaborators \<Rightarrow> Trainer \<Rightarrow> ('w, 'c) train_state \<Rightarrow> 'b list \<Rightarrow>
     ('w, 'c) train_state outcome" where
  "train_pass D self st [] = Returned st"
| "train_pass D self st (b # bs) =
     (case train_batch D self st b of
        Returned st' \<Rightarrow> train_pass D self st' bs
      | Raised e st' \<Rightarrow> Raised e st'
      | OutOfFuel st' \<Rightarrow> OutOfFuel st')"

text \<open>
  The \<^verbatim>\<open>while\<close> loop. It may run forever, so it takes fuel: one unit per pass over the
  dataset. \<open>ds k\<close> are the batches of pass number \<open>k\<close>, and \<open>k\<close> counts the passes made.
\<close>

fun train_loop ::
  "nat \<Rightarrow> ('w, 'b, 'c) collaborators \<Rightarrow> Trainer \<Rightarrow> (nat \<Rightarrow> 'b list) \<Rightarrow> int \<Rightarrow> nat \<Rightarrow>
     ('w, 'c) train_state \<Rightarrow> ('w, 'c) train_state outcome" where
  "train_loop 0 D self ds num_epochs k st =
     (if epoch_count st < num_epochs then OutOfFuel st else Returned st)"
| "train_loop (Suc fuel) D self ds num_epochs k st =
     (if epoch_count st < num_epochs then
        (case train_pass D self st (ds k) of
           Returned st' \<Rightarrow>
             (let st'' = st'\<lparr>trace := trace st' @ [Log_finished (batch_count st')]\<rparr>
              in if batch_count st' = 0
                 then Raised (ValueError ''Iterating over the dataset yielded zero batches!'') st''
                 else train_loop fuel D self ds num_epochs (Suc k) st'')
         | Raised e st' \<Rightarrow> Raised e st'
         | OutOfFuel st' \<Rightarrow> OutOfFuel st')
      else Returned st)"

text \<open>
  \<^verbatim>\<open>Trainer.train\<close>. The datasets are built lazily from the summarizer's preprocessor and
  vectorizer: were one of them still missing, calling it would raise \<^verbatim>\<open>TypeError\<close> when the
  first pass reads the dataset, that is when the loop is entered (\<open>num_epochs > 0\<close>).
\<close>

definition train ::
  "nat \<Rightarrow> ('w, 'b, 'c) collaborators \<Rightarrow> Trainer \<Rightarrow> 'w Summarizer \<Rightarrow> text_pair list \<Rightarrow>
     text_pair list option \<Rightarrow> int \<Rightarrow> 'c list option \<Rightarrow> ('w, 'c) train_state outcome" where
  "train fuel D self summ train_data val_data num_epochs callbacks =
     (let st0 = \<lparr>summarizer = summ, train_callbacks = None, logs = [], epoch_count = 0,
                 batch_count = 0, trace = []\<rparr>
      in case (if preprocessor summ = None \<or> vectorizer summ = None
               then (case init_model D self summ train_data of
                       Inl (e, evs) \<Rightarrow> Inl (e, Log_bare_model # evs)
                     | Inr (summ', evs) \<Rightarrow> Inr (summ', Log_bare_model # evs))
               else Inr (summ, [Log_initialized_model])) of
           Inl (e, evs) \<Rightarrow> Raised e (st0\<lparr>trace := evs\<rparr>)
         | Inr (summ1, evs) \<Rightarrow>
             (let cbs0 =
                    (case callbacks of
                       Some cbs \<Rightarrow> Some cbs
                     | None \<Rightarrow> (case val_data of
                                  Some vd \<Rightarrow> Some (standard_callbacks D vd)
                                | None \<Rightarrow> None));
                  st1 = st0\<lparr>summarizer := summ1, train_callbacks := cbs0, trace := evs\<rparr>
              in if num_epochs \<le> 0 then Returned st1
                 else (case (preprocessor summ1, vectorizer summ1) of
                         (Some p, Some v) \<Rightarrow> train_loop fuel D self (dataset D p v train_data) num_epochs 0 st1
                       | _ \<Rightarrow> Raised (TypeError ''NoneType object is not callable'') st1)))"

subsection \<open>Observations on a run\<close>

text \<open>The events the training loop itself emits, as opposed to those of the initialisation.\<close>

fun loop_event :: "event \<Rightarrow> bool" where
  "loop_event (Log_batch e b lg) = True"
| "loop_event (Call_on_epoch_end i e lg) = True"
| "loop_event (Call_save p) = True"
| "loop_event (Log_finished b) = True"
| "loop_event ev = False"

fun is_Log_batch :: "event \<Rightarrow> bool" where
  "is_Log_batch (Log_batch e b lg) = True"
| "is_Log_batch ev = False"

fun is_Call_on_epoch_end :: "event \<Rightarrow> bool" where
  "is_Call_on_epoch_end (Call_on_epoch_end i e lg) = True"
| "is_Call_on_epoch_end ev = False"

fun is_Call_save :: "event \<Rightarrow> bool" where
  "is_Call_save (Call_save p) = True"
| "is_Call_save ev = False"

subsection \<open>Concrete inputs\<close>

text \<open>
  A preprocessor that puts the start token in front of each side and the end token behind
  it, a trainer with the given \<open>steps_per_epoch\<close> and \<open>max_vocab_size\<close>, an initialised and
  a bare summarizer, and collaborators over a network that counts its training steps:
  every callback is its name and writes the epoch index under that name into the logs; the
  dataset yields one batch per training pair on every pass.
\<close>

definition example_preprocessor :: preprocessor_fn where
  "example_preprocessor d =
     (START_TOKEN @ '' '' @ fst d @ '' '' @ END_TOKEN, START_TOKEN @ '' '' @ snd d @ '' '' @ END_TOKEN)"

definition example_trainer :: "int \<Rightarrow> int \<Rightarrow> Trainer" where
  "example_trainer steps vocab =
     \<lparr>batch_size = 16, max_vocab_size = vocab, glove_path = None, steps_per_epoch = steps,
      model_save_path = ''/tmp/summarizer'', self_preprocessor = example_preprocessor,
      self_vectorizer = None\<rparr>"

definition example_vectorizer :: Vectorizer where
  "example_vectorizer =
     \<lparr>tokenizer_encoder = new_Tokenizer (Some OOV_TOKEN) [],
      tokenizer_decoder = new_Tokenizer (Some OOV_TOKEN) []\<rparr>"

definition initialized_summarizer :: "nat Summarizer" where
  "initialized_summarizer =
     \<lparr>preprocessor = Some example_preprocessor, vectorizer = Some example_vectorizer,
      embedding_size = 50, network = 0\<rparr>"

definition bare_summarizer :: "nat Summarizer" where
  "bare_summarizer = \<lparr>preprocessor = None, vectorizer = None, embedding_size = 50, network = 0\<rparr>"

definition example_collaborators :: "(nat, nat, string) collaborators" where
  "example_collaborators =
     \<lparr>train_step = (\<lambda>w b. (Suc w, 1)),
      on_epoch_end = (\<lambda>c s e lg. Inr (c, AList.update c (of_int e) lg)),
      standard_callbacks = (\<lambda>vd. [''evaluation'', ''validation'', ''checkpoint'', ''tensorboard'']),
      build_network = (\<lambda>w v ee ed. w),
      read_glove = (\<lambda>path n. []),
      embedding_to_matrix = (\<lambda>embedding token_index n. []),
      dataset = (\<lambda>p v data k. [0 ..< length data]),
      list_of = sorted_list_of_set\<rparr>"

text \<open>The same with training data that can be read once only (a generator): the first pass
  yields the batches, every later pass none.\<close>

definition one_shot_collaborators :: "(nat, nat, string) collaborators" where
  "one_shot_collaborators =
     example_collaborators\<lparr>dataset := (\<lambda>p v data k. if k = 0 then [0 ..< length data] else [])\<rparr>"

subsection \<open>Auxiliary notions for the proofs\<close>


text \<open>The value \<^verbatim>\<open>train\<close> binds \<^verbatim>\<open>train_callbacks\<close> to; \<open>None\<close> when it binds nothing.\<close>

definition bound_callbacks ::
  "('w, 'b, 'c) collaborators \<Rightarrow> text_pair list option \<Rightarrow> 'c list option \<Rightarrow> 'c list option" where
  "bound_callbacks D val_data callbacks =
     (case callbacks of
        Some cbs \<Rightarrow> Some cbs
      | None \<Rightarrow> (case val_data of Some vd \<Rightarrow> Some (standard_callbacks D vd) | None \<Rightarrow> None))"

text \<open>Events other than a callback invocation or a save.\<close>

fun quiet_event :: "event \<Rightarrow> bool" where
  "quiet_event (Call_on_epoch_end i e lg) = False"
| "quiet_event (Call_save p) = False"
| "quiet_event ev = True"

text \<open>The state at loop entry for an initialised summarizer with the four standard callbacks.\<close>

definition example_state :: "(nat, string) train_state" where
  "example_state =
     \<lparr>summarizer = initialized_summarizer,
      train_callbacks = Some (standard_callbacks example_collaborators []),
      logs = [], epoch_count = 0, batch_count = 0, trace = []\<rparr>"

section \<open>Notions for the vocabulary claims\<close>

text \<open>
  The tokens of one side of the corpus, in corpus order: the whitespace-delimited pieces of
  every text.
\<close>

definition tokens_of :: "string list \<Rightarrow> string list" where
  "tokens_of texts = concat (map split texts)"

text \<open>
  A token as \<^verbatim>\<open>str.split()\<close> yields it: not empty and free of whitespace.
\<close>

definition atomic :: "string \<Rightarrow> bool" where
  "atomic t \<longleftrightarrow> t \<noteq> [] \<and> (\<forall>c\<in>set t. \<not> isspace c)"

text \<open>
  What \<^verbatim>\<open>list(s)\<close> may be for a set \<open>s\<close>: some enumeration of its elements without
  repetition. Which one depends on the run.
\<close>

definition valid_enumeration :: "(string set \<Rightarrow> string list) \<Rightarrow> bool" where
  "valid_enumeration lo \<longleftrightarrow> (\<forall>S. finite S \<longrightarrow> set (lo S) = S \<and> distinct (lo S))"

text \<open>
  The vocabulary the specification describes for one side, following its words: some set
  \<open>chosen\<close> of tokens of that side, \<open>max_vocab_size\<close> of them (all of them when there are
  fewer), none less frequent than a token left out; the word index holds these, the start and
  the end token and the out-of-vocabulary token, each once; the tokens in sorted order take the
  ids 2, 3, \<dots> in that order, and the out-of-vocabulary token takes id 1 unless it is itself
  among the sorted tokens.
\<close>

definition is_vocabulary_of :: "int \<Rightarrow> string list \<Rightarrow> Tokenizer \<Rightarrow> bool" where
  "is_vocabulary_of max_size texts tk \<longleftrightarrow>
     (\<exists>chosen.
        chosen \<subseteq> set (tokens_of texts) \<and>
        card chosen = min (nat max_size) (card (set (tokens_of texts))) \<and>
        (\<forall>t\<in>chosen. \<forall>u\<in>set (tokens_of texts) - chosen.
           count_list (tokens_of texts) u \<le> count_list (tokens_of texts) t) \<and>
        (let voc = sorted_list_of_set (chosen \<union> {START_TOKEN, END_TOKEN}) in
           fst ` set (word_index tk) = insert OOV_TOKEN (set voc) \<and>
           distinct (map fst (word_index tk)) \<and>
           (\<forall>i<length voc. map_of (word_index tk) (voc ! i) = Some (i + 2)) \<and>
           (OOV_TOKEN \<notin> set voc \<longrightarrow> map_of (word_index tk) OOV_TOKEN = Some 1)))"

text \<open>
  A small corpus; on the source side \<open>b\<close> occurs four times, \<open>a\<close> twice, \<open>c\<close> and
  \<open><unk>\<close> once.
\<close>

definition example_corpus :: "text_pair list" where
  "example_corpus = [(''a b b'', ''x''), (''b c'', ''y x''), (''<unk> a b'', ''x'')]"

section \<open>\<^verbatim>\<open>headliner/callbacks/evaluation_callback.py\<close>\<close>









section \<open>Facts about the training loop\<close>

subsection \<open>Arithmetic of the counters\<close>




subsection \<open>The callbacks of one epoch end\<close>

lemma run_callbacks_events:
  "run_callbacks D summ e i cbs lg = (r, cbs', lg', evs) \<Longrightarrow> \<forall>ev\<in>set evs. is_Call_on_epoch_end ev"
  by (induction cbs arbitrary: i lg r cbs' lg' evs) (auto split: sum.splits prod.splits)

lemma run_callbacks_chain:
  "run_callbacks D summ e i cbs lg = (None, cbs', lg', evs) \<Longrightarrow>
   \<exists>ls. length ls = Suc (length cbs) \<and> ls ! 0 = lg \<and> ls ! length cbs = lg' \<and>
        length cbs' = length cbs \<and>
        (\<forall>j<length cbs. on_epoch_end D (cbs ! j) summ e (ls ! j) = Inr (cbs' ! j, ls ! Suc j)) \<and>
        evs = map (\<lambda>j. Call_on_epoch_end (i + j) e (ls ! j)) [0 ..< length cbs]"
proof (induction cbs arbitrary: i lg cbs' lg' evs)
  case Nil
  then show ?case by (auto intro: exI[of _ "[lg]"])
next
  case (Cons c cs)
  from Cons.prems obtain c1 lg1 cs1 evs1 where
    hook: "on_epoch_end D c summ e lg = Inr (c1, lg1)" and
    rest: "run_callbacks D summ e (Suc i) cs lg1 = (None, cs1, lg', evs1)" and
    res: "cbs' = c1 # cs1" "evs = Call_on_epoch_end i e lg # evs1"
    by (auto split: sum.splits prod.splits)
  from Cons.IH[OF rest] obtain ls where
    ls: "length ls = Suc (length cs)" "ls ! 0 = lg1" "ls ! length cs = lg'" "length cs1 = length cs"
      "\<forall>j<length cs. on_epoch_end D (cs ! j) summ e (ls ! j) = Inr (cs1 ! j, ls ! Suc j)"
      "evs1 = map (\<lambda>j. Call_on_epoch_end (Suc i + j) e (ls ! j)) [0 ..< length cs]"
    by blast
  have hooks: "\<forall>j<length (c # cs). on_epoch_end D ((c # cs) ! j) summ e ((lg # ls) ! j)
                 = Inr (cbs' ! j, (lg # ls) ! Suc j)"
  proof (intro allI impI)
    fix j assume "j < length (c # cs)"
    then show "on_epoch_end D ((c # cs) ! j) summ e ((lg # ls) ! j) = Inr (cbs' ! j, (lg # ls) ! Suc j)"
      using hook ls res by (cases j) auto
  qed
  have evs: "evs = map (\<lambda>j. Call_on_epoch_end (i + j) e ((lg # ls) ! j)) [0 ..< length (c # cs)]"
    using res ls(6) by (simp add: upt_conv_Cons map_Suc_upt[symmetric] del: upt_Suc)
  show ?case
    by (rule exI[of _ "lg # ls"]) (use ls res hooks evs in simp)
qed

lemma run_callbacks_total:
  assumes "\<forall>c s e l. \<exists>c' l'. on_epoch_end D c s e l = Inr (c', l')"
  shows "fst (run_callbacks D summ e i cbs lg) = None"
proof (induction cbs arbitrary: i lg)
  case Nil
  show ?case by simp
next
  case (Cons c cs)
  from assms obtain c' l' where h: "on_epoch_end D c summ e lg = Inr (c', l')" by blast
  with Cons.IH[of "Suc i" l'] show ?case by (auto split: prod.splits)
qed

subsection \<open>One batch\<close>


lemma train_batch_frame:
  "preprocessor (summarizer (state_of (train_batch D self st b))) = preprocessor (summarizer st) \<and>
   vectorizer (summarizer (state_of (train_batch D self st b))) = vectorizer (summarizer st) \<and>
   (\<exists>evs. trace (state_of (train_batch D self st b)) = trace st @ evs \<and> (\<forall>ev\<in>set evs. loop_event ev))"
proof -
  have ev: "is_Call_on_epoch_end ev \<Longrightarrow> loop_event ev" for ev by (cases ev) auto
  show ?thesis
    by (auto simp: train_batch_def Let_def ev split: option.splits prod.splits
        dest!: run_callbacks_events)
qed

lemma train_batch_Returned:
  assumes "train_batch D self st b = Returned st'"
  shows "batch_count st' = batch_count st + 1"
    and "steps_per_epoch self \<noteq> 0"
    and "epoch_count st' = epoch_count st + (if (batch_count st + 1) mod steps_per_epoch self = 0 then 1 else 0)"
  using assms by (auto simp: train_batch_def Let_def split: option.splits prod.splits if_splits)



lemma train_batch_off_block:
  assumes "steps_per_epoch self \<noteq> 0" and "(batch_count st + 1) mod steps_per_epoch self \<noteq> 0"
  shows "\<exists>st' lg. train_batch D self st b = Returned st' \<and>
           trace st' = trace st @ [Log_batch (epoch_count st) (batch_count st + 1) lg] \<and>
           epoch_count st' = epoch_count st \<and> batch_count st' = batch_count st + 1 \<and>
           train_callbacks st' = train_callbacks st \<and> logs st' = lg"
  using assms by (simp add: train_batch_def Let_def)

lemma train_batch_on_block:
  assumes "(batch_count st + 1) mod steps_per_epoch self = 0"
    and "train_callbacks st = Some cbs"
    and "train_batch D self st b = Returned st'"
  shows "\<exists>ls cbs'.
           trace st' = trace st @ [Log_batch (epoch_count st) (batch_count st + 1) (ls ! 0)]
             @ map (\<lambda>j. Call_on_epoch_end j (epoch_count st) (ls ! j)) [0 ..< length cbs]
             @ [Call_save (model_save_path self)] \<and>
           length ls = Suc (length cbs) \<and> length cbs' = length cbs \<and>
           (\<forall>j<length cbs. on_epoch_end D (cbs ! j) (summarizer st') (epoch_count st) (ls ! j)
                            = Inr (cbs' ! j, ls ! Suc j)) \<and>
           logs st' = ls ! length cbs \<and> train_callbacks st' = Some cbs' \<and>
           epoch_count st' = epoch_count st + 1 \<and> batch_count st' = batch_count st + 1"
proof -
  define stepped where "stepped = train_step D (network (summarizer st)) b"
  define summ where "summ = (summarizer st)\<lparr>network := fst stepped\<rparr>"
  define lg where "lg = AList.update ''loss'' (snd stepped) (logs st)"
  from assms obtain cbs' lg' evs where
    rc: "run_callbacks D summ (epoch_count st) 0 cbs lg = (None, cbs', lg', evs)" and
    st': "st' = st\<lparr>summarizer := summ, logs := lg', batch_count := batch_count st + 1,
              trace := trace st @ [Log_batch (epoch_count st) (batch_count st + 1) lg] @ evs
                         @ [Call_save (model_save_path self)],
              train_callbacks := Some cbs', epoch_count := epoch_count st + 1\<rparr>"
    by (auto simp: train_batch_def Let_def stepped_def summ_def lg_def
        split: if_splits option.splits prod.splits)
  from run_callbacks_chain[OF rc] obtain ls where
    ls: "length ls = Suc (length cbs)" "ls ! 0 = lg" "ls ! length cbs = lg'" "length cbs' = length cbs"
      "\<forall>j<length cbs. on_epoch_end D (cbs ! j) summ (epoch_count st) (ls ! j) = Inr (cbs' ! j, ls ! Suc j)"
      "evs = map (\<lambda>j. Call_on_epoch_end (0 + j) (epoch_count st) (ls ! j)) [0 ..< length cbs]"
    by blast
  show ?thesis
    by (rule exI[of _ ls], rule exI[of _ cbs']) (use ls st' in simp)
qed

lemma train_batch_unbound:
  assumes "steps_per_epoch self \<noteq> 0" and "(batch_count st + 1) mod steps_per_epoch self = 0"
    and "train_callbacks st = None"
  shows "\<exists>st' lg. train_batch D self st b = Raised (UnboundLocalError ''train_callbacks'') st' \<and>
           trace st' = trace st @ [Log_batch (epoch_count st) (batch_count st + 1) lg] \<and>
           epoch_count st' = epoch_count st \<and> batch_count st' = batch_count st + 1"
  using assms by (simp add: train_batch_def Let_def)

lemma train_batch_returns:
  assumes "\<forall>c s e l. \<exists>c' l'. on_epoch_end D c s e l = Inr (c', l')"
    and "steps_per_epoch self \<noteq> 0" and "train_callbacks st \<noteq> None"
  shows "\<exists>st'. train_batch D self st b = Returned st' \<and> train_callbacks st' \<noteq> None"
proof -
  obtain cbs where cbs: "train_callbacks st = Some cbs" using assms(3) by auto
  show ?thesis
  proof (cases "(batch_count st + 1) mod steps_per_epoch self = 0")
    case False
    from train_batch_off_block[OF assms(2) this, of D b] assms(3) show ?thesis by auto
  next
    case True
    let ?summ = "(summarizer st)\<lparr>network := fst (train_step D (network (summarizer st)) b)\<rparr>"
    let ?lg = "AList.update ''loss'' (snd (train_step D (network (summarizer st)) b)) (logs st)"
    obtain r cbs' lg' evs where rc: "run_callbacks D ?summ (epoch_count st) 0 cbs ?lg = (r, cbs', lg', evs)"
      by (metis prod_cases4)
    with run_callbacks_total[OF assms(1), of ?summ "epoch_count st" 0 cbs ?lg] have "r = None" by simp
    with rc True cbs assms(2) show ?thesis by (simp add: train_batch_def Let_def)
  qed
qed

subsection \<open>One pass over the dataset\<close>


lemma train_pass_frame:
  "preprocessor (summarizer (state_of (train_pass D self st bs))) = preprocessor (summarizer st) \<and>
   vectorizer (summarizer (state_of (train_pass D self st bs))) = vectorizer (summarizer st) \<and>
   (\<exists>evs. trace (state_of (train_pass D self st bs)) = trace st @ evs \<and> (\<forall>ev\<in>set evs. loop_event ev))"
proof (induction bs arbitrary: st)
  case Nil
  show ?case by simp
next
  case (Cons b bs)
  note step = train_batch_frame[of D self st b]
  show ?case
  proof (cases "train_batch D self st b")
    case (Returned st1)
    with step Cons.IH[of st1] show ?thesis by auto
  next
    case (Raised e st1)
    with step show ?thesis by simp
  next
    case (OutOfFuel st1)
    with step show ?thesis by simp
  qed
qed



lemma train_pass_append:
  "train_pass D self st (xs @ ys) =
     (case train_pass D self st xs of
        Returned st1 \<Rightarrow> train_pass D self st1 ys
      | Raised e st1 \<Rightarrow> Raised e st1
      | OutOfFuel st1 \<Rightarrow> OutOfFuel st1)"
  by (induction xs arbitrary: st) (auto split: outcome.splits)

lemma train_pass_off_block:
  assumes "steps_per_epoch self \<noteq> 0"
    and "\<forall>i. 0 < i \<and> i \<le> int (length bs) \<longrightarrow> (batch_count st + i) mod steps_per_epoch self \<noteq> 0"
  shows "\<exists>st' blogs. train_pass D self st bs = Returned st' \<and>
           trace st' = trace st @ blogs \<and> length blogs = length bs \<and>
           (\<forall>ev\<in>set blogs. is_Log_batch ev) \<and>
           epoch_count st' = epoch_count st \<and> batch_count st' = batch_count st + int (length bs) \<and>
           train_callbacks st' = train_callbacks st"
  using assms(2)
proof (induction bs arbitrary: st)
  case Nil
  show ?case by simp
next
  case (Cons b bs)
  have "(batch_count st + 1) mod steps_per_epoch self \<noteq> 0" using Cons.prems by simp
  from train_batch_off_block[OF assms(1) this, of D b] obtain st1 lg where
    1: "train_batch D self st b = Returned st1"
       "trace st1 = trace st @ [Log_batch (epoch_count st) (batch_count st + 1) lg]"
       "epoch_count st1 = epoch_count st" "batch_count st1 = batch_count st + 1"
       "train_callbacks st1 = train_callbacks st"
    by blast
  have "\<forall>i. 0 < i \<and> i \<le> int (length bs) \<longrightarrow> (batch_count st1 + i) mod steps_per_epoch self \<noteq> 0"
  proof (intro allI impI)
    fix i assume "0 < i \<and> i \<le> int (length bs)"
    then have "0 < i + 1 \<and> i + 1 \<le> int (length (b # bs))" by simp
    then have "(batch_count st + (i + 1)) mod steps_per_epoch self \<noteq> 0"
      using Cons.prems[rule_format, of "i + 1"] by simp
    then show "(batch_count st1 + i) mod steps_per_epoch self \<noteq> 0" using 1(4) by (simp add: add.commute add.left_commute)
  qed
  from Cons.IH[OF this] obtain st' blogs where
    2: "train_pass D self st1 bs = Returned st'" "trace st' = trace st1 @ blogs"
       "length blogs = length bs" "\<forall>ev\<in>set blogs. is_Log_batch ev"
       "epoch_count st' = epoch_count st1" "batch_count st' = batch_count st1 + int (length bs)"
       "train_callbacks st' = train_callbacks st1"
    by blast
  show ?case
    by (rule exI[of _ st'], rule exI[of _ "Log_batch (epoch_count st) (batch_count st + 1) lg # blogs"])
       (use 1 2 in simp)
qed

lemma train_pass_returns:
  assumes "\<forall>c s e l. \<exists>c' l'. on_epoch_end D c s e l = Inr (c', l')"
    and "steps_per_epoch self \<noteq> 0" and "train_callbacks st \<noteq> None"
  shows "is_Returned (train_pass D self st bs)"
  using assms(3)
proof (induction bs arbitrary: st)
  case Nil
  show ?case by simp
next
  case (Cons b bs)
  from train_batch_returns[OF assms(1,2) Cons.prems, of b] obtain st1 where
    "train_batch D self st b = Returned st1" "train_callbacks st1 \<noteq> None" by blast
  with Cons.IH[of st1] show ?case by simp
qed

lemma train_pass_unbound:
  assumes s: "0 < steps_per_epoch self"
    and "train_callbacks st = None" and "0 \<le> batch_count st" and "batch_count st < steps_per_epoch self"
  shows "\<exists>st' evs. trace st' = trace st @ evs \<and> (\<forall>ev\<in>set evs. quiet_event ev) \<and>
           epoch_count st' = epoch_count st \<and>
           (if batch_count st + int (length bs) < steps_per_epoch self
            then train_pass D self st bs = Returned st' \<and> train_callbacks st' = None \<and>
                 batch_count st' = batch_count st + int (length bs)
            else train_pass D self st bs = Raised (UnboundLocalError ''train_callbacks'') st' \<and>
                 batch_count st' = steps_per_epoch self)"
  using assms(2-)
proof (induction bs arbitrary: st)
  case Nil
  then show ?case by (intro exI[of _ st] exI[of _ "[]"]) simp
next
  case (Cons b bs)
  let ?s = "steps_per_epoch self"
  show ?case
  proof (cases "batch_count st + 1 = ?s")
    case True
    then have "(batch_count st + 1) mod ?s = 0" by simp
    from train_batch_unbound[OF _ this Cons.prems(1), of D b] s obtain st1 lg where
      1: "train_batch D self st b = Raised (UnboundLocalError ''train_callbacks'') st1"
         "trace st1 = trace st @ [Log_batch (epoch_count st) (batch_count st + 1) lg]"
         "epoch_count st1 = epoch_count st" "batch_count st1 = batch_count st + 1"
      by auto
    show ?thesis
      by (rule exI[of _ st1], rule exI[of _ "[Log_batch (epoch_count st) (batch_count st + 1) lg]"])
         (use 1 True in simp)
  next
    case False
    with Cons.prems have lt: "batch_count st + 1 < ?s" by simp
    then have "(batch_count st + 1) mod ?s \<noteq> 0" using Cons.prems by simp
    from train_batch_off_block[OF _ this, of D b] s obtain st1 lg where
      1: "train_batch D self st b = Returned st1"
         "trace st1 = trace st @ [Log_batch (epoch_count st) (batch_count st + 1) lg]"
         "epoch_count st1 = epoch_count st" "batch_count st1 = batch_count st + 1"
         "train_callbacks st1 = train_callbacks st"
      by auto
    from Cons.IH[of st1] 1 lt Cons.prems obtain st' evs where
      2: "trace st' = trace st1 @ evs" "\<forall>ev\<in>set evs. quiet_event ev"
         "epoch_count st' = epoch_count st1"
         "if batch_count st1 + int (length bs) < ?s
            then train_pass D self st1 bs = Returned st' \<and> train_callbacks st' = None \<and>
                 batch_count st' = batch_count st1 + int (length bs)
            else train_pass D self st1 bs = Raised (UnboundLocalError ''train_callbacks'') st' \<and>
                 batch_count st' = ?s"
      by auto
    show ?thesis
      by (rule exI[of _ st'], rule exI[of _ "Log_batch (epoch_count st) (batch_count st + 1) lg # evs"])
         (use 1 2 in \<open>simp add: add.assoc split: if_splits\<close>)
  qed
qed

subsection \<open>The while loop\<close>


lemma train_loop_frame:
  "preprocessor (summarizer (state_of (train_loop f D self ds n k st))) = preprocessor (summarizer st) \<and>
   vectorizer (summarizer (state_of (train_loop f D self ds n k st))) = vectorizer (summarizer st) \<and>
   (\<exists>evs. trace (state_of (train_loop f D self ds n k st)) = trace st @ evs \<and> (\<forall>ev\<in>set evs. loop_event ev))"
proof (induction f arbitrary: k st)
  case 0
  show ?case by simp
next
  case (Suc f)
  show ?case
  proof (cases "epoch_count st < n")
    case False
    then show ?thesis by simp
  next
    case True
    note pass = train_pass_frame[of D self st "ds k"]
    show ?thesis
    proof (cases "train_pass D self st (ds k)")
      case (Returned st1)
      let ?st2 = "st1\<lparr>trace := trace st1 @ [Log_finished (batch_count st1)]\<rparr>"
      from pass Returned obtain evs1 where
        1: "preprocessor (summarizer st1) = preprocessor (summarizer st)"
           "vectorizer (summarizer st1) = vectorizer (summarizer st)"
           "trace st1 = trace st @ evs1" "\<forall>ev\<in>set evs1. loop_event ev"
        by auto
      show ?thesis
      proof (cases "batch_count st1 = 0")
        case z: True
        have "trace ?st2 = trace st @ (evs1 @ [Log_finished (batch_count st1)])" using 1 by simp
        moreover have "\<forall>ev\<in>set (evs1 @ [Log_finished (batch_count st1)]). loop_event ev"
          using 1 by simp
        ultimately show ?thesis using True Returned z 1 by (simp add: Let_def)
      next
        case nz: False
        from Suc.IH[of "Suc k" ?st2] obtain evs2 where
          2: "preprocessor (summarizer (state_of (train_loop f D self ds n (Suc k) ?st2))) = preprocessor (summarizer ?st2)"
             "vectorizer (summarizer (state_of (train_loop f D self ds n (Suc k) ?st2))) = vectorizer (summarizer ?st2)"
             "trace (state_of (train_loop f D self ds n (Suc k) ?st2)) = trace ?st2 @ evs2"
             "\<forall>ev\<in>set evs2. loop_event ev"
          by auto
        have "trace (state_of (train_loop f D self ds n (Suc k) ?st2))
                = trace st @ (evs1 @ Log_finished (batch_count st1) # evs2)"
          using 1 2 by simp
        moreover have "\<forall>ev\<in>set (evs1 @ Log_finished (batch_count st1) # evs2). loop_event ev"
          using 1 2 by auto
        ultimately show ?thesis using True Returned nz 1 2 by (simp add: Let_def)
      qed
    next
      case (Raised e st1)
      with True pass show ?thesis by simp
    next
      case (OutOfFuel st1)
      with True pass show ?thesis by simp
    qed
  qed
qed




lemma train_loop_unbound:
  assumes s: "0 < steps_per_epoch self"
    and "train_callbacks st = None" and "0 \<le> batch_count st" and "batch_count st < steps_per_epoch self"
    and "epoch_count st < n"
    and "\<forall>j<m. ds (k + j) \<noteq> []"
    and "steps_per_epoch self \<le> batch_count st + (\<Sum>j\<le>m. int (length (ds (k + j))))"
  shows "\<exists>st' evs. train_loop (Suc m + d) D self ds n k st = Raised (UnboundLocalError ''train_callbacks'') st' \<and>
           batch_count st' = steps_per_epoch self \<and> epoch_count st' = epoch_count st \<and>
           trace st' = trace st @ evs \<and> (\<forall>ev\<in>set evs. quiet_event ev)"
  using assms(2-)
proof (induction m arbitrary: k st)
  case 0
  then have "\<not> batch_count st + int (length (ds k)) < steps_per_epoch self" by simp
  with train_pass_unbound[OF s 0(1,2,3), where D = D and bs = "ds k"] 0(4) show ?case by auto
next
  case (Suc m)
  let ?s = "steps_per_epoch self"
  from train_pass_unbound[OF s Suc.prems(1,2,3), where D = D and bs = "ds k"] obtain st1 evs where
    1: "trace st1 = trace st @ evs" "\<forall>ev\<in>set evs. quiet_event ev" "epoch_count st1 = epoch_count st"
       "if batch_count st + int (length (ds k)) < ?s
            then train_pass D self st (ds k) = Returned st1 \<and> train_callbacks st1 = None \<and>
                 batch_count st1 = batch_count st + int (length (ds k))
            else train_pass D self st (ds k) = Raised (UnboundLocalError ''train_callbacks'') st1 \<and>
                 batch_count st1 = ?s"
    by blast
  show ?case
  proof (cases "batch_count st + int (length (ds k)) < ?s")
    case False
    with 1 Suc.prems(4) show ?thesis by auto
  next
    case True
    let ?st2 = "st1\<lparr>trace := trace st1 @ [Log_finished (batch_count st1)]\<rparr>"
    from True 1 have p: "train_pass D self st (ds k) = Returned st1" "train_callbacks st1 = None"
      "batch_count st1 = batch_count st + int (length (ds k))" by simp_all
    have "ds k \<noteq> []" using Suc.prems(5)[rule_format, of 0] by simp
    then have "0 < int (length (ds k))" by simp
    then have nz: "batch_count st1 \<noteq> 0" using p(3) Suc.prems(2) by linarith
    have shift: "(\<Sum>j\<le>Suc m. int (length (ds (k + j)))) =
                 int (length (ds k)) + (\<Sum>j\<le>m. int (length (ds (Suc k + j))))"
      by (simp add: sum.atMost_Suc_shift del: sum.atMost_Suc)
    have "\<exists>st' evs'. train_loop (Suc m + d) D self ds n (Suc k) ?st2
              = Raised (UnboundLocalError ''train_callbacks'') st' \<and>
           batch_count st' = ?s \<and> epoch_count st' = epoch_count ?st2 \<and>
           trace st' = trace ?st2 @ evs' \<and> (\<forall>ev\<in>set evs'. quiet_event ev)"
    proof (rule Suc.IH)
      show "train_callbacks ?st2 = None" using p by simp
      show "0 \<le> batch_count ?st2" using p Suc.prems by simp
      show "batch_count ?st2 < ?s" using p True by simp
      show "epoch_count ?st2 < n" using 1 Suc.prems by simp
      show "\<forall>j<m. ds (Suc k + j) \<noteq> []" using Suc.prems(5) by (metis Suc_less_eq add_Suc_shift)
      show "?s \<le> batch_count ?st2 + (\<Sum>j\<le>m. int (length (ds (Suc k + j))))"
        using Suc.prems(6) p shift by simp
    qed
    then obtain st' evs' where
      2: "train_loop (Suc m + d) D self ds n (Suc k) ?st2 = Raised (UnboundLocalError ''train_callbacks'') st'"
         "batch_count st' = ?s" "epoch_count st' = epoch_count ?st2"
         "trace st' = trace ?st2 @ evs'" "\<forall>ev\<in>set evs'. quiet_event ev"
      by blast
    have "train_loop (Suc (Suc m) + d) D self ds n k st = train_loop (Suc m + d) D self ds n (Suc k) ?st2"
      using Suc.prems(4) p nz by (simp add: Let_def)
    then have r: "train_loop (Suc (Suc m) + d) D self ds n k st
                    = Raised (UnboundLocalError ''train_callbacks'') st'"
      using 2(1) by simp
    have tr: "trace st' = trace st @ (evs @ Log_finished (batch_count st1) # evs')"
      using 1 2 by simp
    have quiet: "\<forall>ev\<in>set (evs @ Log_finished (batch_count st1) # evs'). quiet_event ev"
      using 1 2 by auto
    have "epoch_count st' = epoch_count st" using 1 2 by simp
    with r tr quiet 2(2) show ?thesis by blast
  qed
qed

subsection \<open>Initialisation and loop entry\<close>

lemma create_tokenizers_empty:
  "create_tokenizers lo self [] = Inl (ValueError ''not enough values to unpack (expected 2, got 0)'')"
  by (simp add: create_tokenizers_def unzip_pairs_def)

lemma create_tokenizers_nonempty:
  "td \<noteq> [] \<Longrightarrow> \<exists>te tde. create_tokenizers lo self td = Inr (te, tde)"
  by (simp add: create_tokenizers_def unzip_pairs_def Let_def)

lemma init_model_fails:
  assumes "self_vectorizer self = None" and "td = []"
  shows "init_model D self summ td =
           Inl (ValueError ''not enough values to unpack (expected 2, got 0)'', [])"
  using assms by (simp add: init_model_def create_tokenizers_empty)

lemma init_model_succeeds:
  assumes "self_vectorizer self \<noteq> None \<or> td \<noteq> []"
  shows "\<exists>summ' evs v. init_model D self summ td = Inr (summ', evs) \<and>
           preprocessor summ' = Some (self_preprocessor self) \<and> vectorizer summ' = Some v \<and>
           Call_init_model \<in> set evs \<and> Log_bare_model \<notin> set evs \<and> (\<forall>ev\<in>set evs. \<not> loop_event ev)"
proof (cases "self_vectorizer self")
  case (Some v)
  then show ?thesis by (simp add: init_model_def summarizer_init_model_def)
next
  case None
  with assms have "map (self_preprocessor self) td \<noteq> []" by simp
  from create_tokenizers_nonempty[OF this, of "list_of D" self] obtain te tde where
    "create_tokenizers (list_of D) self (map (self_preprocessor self) td) = Inr (te, tde)" by blast
  with None show ?thesis by (simp add: init_model_def summarizer_init_model_def Let_def)
qed

lemma not_loop_event_quiet: "\<not> loop_event ev \<Longrightarrow> quiet_event ev"
  by (cases ev) simp_all

text \<open>
  \<^verbatim>\<open>train\<close> either fails while it builds the vocabularies of a bare model, or it enters the
  loop with both counters at zero and an initialised summarizer.
\<close>

lemma train_entry [case_names fails loop]:
  fixes D :: "('w, 'b, 'c) collaborators"
  obtains
    (fails) "preprocessor summ = None \<or> vectorizer summ = None"
      "self_vectorizer self = None" "td = []"
      "\<forall>f. train f D self summ td vd n cbs =
             Raised (ValueError ''not enough values to unpack (expected 2, got 0)'')
               \<lparr>summarizer = summ, train_callbacks = None, logs = [], epoch_count = 0,
                batch_count = 0, trace = [Log_bare_model]\<rparr>"
  | (loop) p v st where
      "preprocessor summ = None \<or> vectorizer summ = None \<Longrightarrow> self_vectorizer self \<noteq> None \<or> td \<noteq> []"
      "\<forall>f. train f D self summ td vd n cbs = train_loop f D self (dataset D p v td) n 0 st"
      "preprocessor (summarizer st) = Some p" "vectorizer (summarizer st) = Some v"
      "epoch_count st = 0" "batch_count st = 0" "logs st = []"
      "train_callbacks st = bound_callbacks D vd cbs"
      "if preprocessor summ = None \<or> vectorizer summ = None
       then (\<exists>evs. init_model D self summ td = Inr (summarizer st, evs) \<and>
                   trace st = Log_bare_model # evs)
       else summarizer st = summ \<and> trace st = [Log_initialized_model]"
proof (cases "preprocessor summ = None \<or> vectorizer summ = None")
  case False
  then obtain p v where pv: "preprocessor summ = Some p" "vectorizer summ = Some v"
    by auto
  let ?st = "\<lparr>summarizer = summ, train_callbacks = bound_callbacks D vd cbs, logs = [],
              epoch_count = 0, batch_count = 0, trace = [Log_initialized_model]\<rparr>"
  have "\<forall>f. train f D self summ td vd n cbs = train_loop f D self (dataset D p v td) n 0 ?st"
  proof
    fix f show "train f D self summ td vd n cbs = train_loop f D self (dataset D p v td) n 0 ?st"
      using pv by (cases f) (simp_all add: train_def bound_callbacks_def)
  qed
  with False pv show thesis by (intro loop[of p v ?st]) simp_all
next
  case True
  show thesis
  proof (cases "self_vectorizer self = None \<and> td = []")
    case fails': True
    then have "init_model D self summ td =
           Inl (ValueError ''not enough values to unpack (expected 2, got 0)'', [])"
      by (simp add: init_model_fails)
    with True fails' show thesis by (intro fails) (simp_all add: train_def)
  next
    case ok: False
    then have "self_vectorizer self \<noteq> None \<or> td \<noteq> []" by simp
    from init_model_succeeds[OF this, of D summ] obtain summ' evs v where
      init: "init_model D self summ td = Inr (summ', evs)"
        "preprocessor summ' = Some (self_preprocessor self)" "vectorizer summ' = Some v"
      by blast
    let ?st = "\<lparr>summarizer = summ', train_callbacks = bound_callbacks D vd cbs, logs = [],
                epoch_count = 0, batch_count = 0, trace = Log_bare_model # evs\<rparr>"
    have "\<forall>f. train f D self summ td vd n cbs =
            train_loop f D self (dataset D (self_preprocessor self) v td) n 0 ?st"
    proof
      fix f show "train f D self summ td vd n cbs =
            train_loop f D self (dataset D (self_preprocessor self) v td) n 0 ?st"
        using True init by (cases f) (simp_all add: train_def bound_callbacks_def)
    qed
    with True ok init show thesis
      by (intro loop[of "self_preprocessor self" v ?st]) simp_all
  qed
qed



section \<open>The zero-batch guard\<close>

text \<open>
  The guard after the \<^verbatim>\<open>for\<close> loop tests the running total \<open>batch_count\<close>, which is never
  reset. A pass that yields nothing raises when no batch was ever pulled.
\<close>

lemma empty_pass_without_batches_raises:
  assumes "epoch_count st < n" and "batch_count st = 0" and "ds k = []"
  shows "train_loop (Suc fuel) D self ds n k st =
           Raised (ValueError ''Iterating over the dataset yielded zero batches!'')
             (st\<lparr>trace := trace st @ [Log_finished 0]\<rparr>)"
  using assms by simp

text \<open>
  Once a batch has been pulled, passes that yield nothing change neither counter and raise
  nothing: the loop goes round for as long as it is given fuel.
\<close>

lemma train_loop_spins:
  "epoch_count st < n \<Longrightarrow> batch_count st \<noteq> 0 \<Longrightarrow> (\<forall>j\<ge>k. ds j = []) \<Longrightarrow>
   \<exists>st'. train_loop fuel D self ds n k st = OutOfFuel st' \<and> epoch_count st' = epoch_count st
      \<and> batch_count st' = batch_count st"
proof (induction fuel arbitrary: k st)
  case 0
  then show ?case by simp
next
  case (Suc fuel)
  let ?st = "st\<lparr>trace := trace st @ [Log_finished (batch_count st)]\<rparr>"
  have "\<exists>st'. train_loop fuel D self ds n (Suc k) ?st = OutOfFuel st'
          \<and> epoch_count st' = epoch_count ?st \<and> batch_count st' = batch_count ?st"
    by (rule Suc.IH) (use Suc.prems in auto)
  with Suc.prems show ?case by (simp add: Let_def)
qed

text \<open>
  Claim C1. Every pass over the training dataset that yields zero batches makes
  \<^verbatim>\<open>train\<close> fail with the zero-batches \<^verbatim>\<open>ValueError\<close>, on later passes as on the first.
  The code does not do so: with an initialised summarizer, one training pair that can be read
  once, \<open>steps_per_epoch = 2\<close> and \<open>num_epochs = 1\<close>, every pass after the first yields
  nothing, and the run neither raises nor returns, whatever fuel it is given.
\<close>

theorem later_empty_pass_is_not_detected:
  "dataset one_shot_collaborators example_preprocessor example_vectorizer [(''a'', ''b'')] (Suc k) = []
   \<and> is_OutOfFuel (train fuel one_shot_collaborators (example_trainer 2 10) initialized_summarizer
        [(''a'', ''b'')] None 1 (Some []))"
proof (cases fuel)
  case 0
  then show ?thesis
    by (simp add: train_def initialized_summarizer_def one_shot_collaborators_def
        example_collaborators_def)
next
  case (Suc f)
  let ?ds = "dataset one_shot_collaborators example_preprocessor example_vectorizer [(''a'', ''b'')]"
  let ?st = "\<lparr>summarizer = initialized_summarizer\<lparr>network := Suc 0\<rparr>, train_callbacks = Some [],
              logs = [(''loss'', 1)], epoch_count = 0, batch_count = 1,
              trace = [Log_initialized_model, Log_batch 0 1 [(''loss'', 1)], Log_finished 1]\<rparr>
             :: (nat, string) train_state"
  have ds: "?ds 0 = [0]" "\<forall>j\<ge>1. ?ds j = []"
    by (simp_all add: one_shot_collaborators_def example_collaborators_def)
  have "\<exists>st'. train_loop f one_shot_collaborators (example_trainer 2 10) ?ds 1 1 ?st = OutOfFuel st'
        \<and> epoch_count st' = epoch_count ?st \<and> batch_count st' = batch_count ?st"
    by (rule train_loop_spins) (use ds in simp_all)
  then obtain st' where
    "train_loop f one_shot_collaborators (example_trainer 2 10) ?ds 1 (Suc 0) ?st = OutOfFuel st'"
    by auto
  moreover have "train (Suc f) one_shot_collaborators (example_trainer 2 10) initialized_summarizer
        [(''a'', ''b'')] None 1 (Some []) =
      train_loop f one_shot_collaborators (example_trainer 2 10) ?ds 1 (Suc 0) ?st"
    by (simp add: train_def initialized_summarizer_def one_shot_collaborators_def
        example_collaborators_def train_batch_def example_trainer_def Let_def)
  ultimately show ?thesis using Suc ds by simp
qed

section \<open>The end of an epoch\<close>

lemma train_pass_block:
  assumes "0 < steps_per_epoch self"
    and "int (length bs) = steps_per_epoch self"
    and "batch_count st mod steps_per_epoch self = 0"
    and "train_callbacks st = Some cbs"
    and "train_pass D self st bs = Returned st'"
  shows "\<exists>blogs ls cbs'.
           trace st' = trace st @ blogs
             @ map (\<lambda>j. Call_on_epoch_end j (epoch_count st) (ls ! j)) [0 ..< length cbs]
             @ [Call_save (model_save_path self)] \<and>
           length blogs = length bs \<and> (\<forall>ev\<in>set blogs. is_Log_batch ev) \<and>
           last blogs = Log_batch (epoch_count st) (batch_count st + steps_per_epoch self) (ls ! 0) \<and>
           length ls = Suc (length cbs) \<and> length cbs' = length cbs \<and>
           (\<forall>j<length cbs. on_epoch_end D (cbs ! j) (summarizer st') (epoch_count st) (ls ! j)
                            = Inr (cbs' ! j, ls ! Suc j)) \<and>
           logs st' = ls ! length cbs \<and> train_callbacks st' = Some cbs' \<and>
           epoch_count st' = epoch_count st + 1 \<and>
           batch_count st' = batch_count st + steps_per_epoch self"
proof -
  let ?s = "steps_per_epoch self"
  have ne: "bs \<noteq> []" using assms(1,2) by auto
  then have split: "bs = butlast bs @ [last bs]" by simp
  have len: "int (length (butlast bs)) = ?s - 1" using assms(2) ne by (simp add: of_nat_diff Suc_leI)
  have off: "\<forall>i. 0 < i \<and> i \<le> int (length (butlast bs)) \<longrightarrow> (batch_count st + i) mod ?s \<noteq> 0"
  proof (intro allI impI)
    fix i assume i: "0 < i \<and> i \<le> int (length (butlast bs))"
    have "(batch_count st + i) mod ?s = (batch_count st mod ?s + i mod ?s) mod ?s"
      by (simp add: mod_add_eq)
    also have "\<dots> = i" using i len assms(3) by simp
    finally show "(batch_count st + i) mod ?s \<noteq> 0" using i by simp
  qed
  from train_pass_off_block[OF _ off, of D] assms(1) obtain st1 blogs where
    1: "train_pass D self st (butlast bs) = Returned st1" "trace st1 = trace st @ blogs"
       "length blogs = length (butlast bs)" "\<forall>ev\<in>set blogs. is_Log_batch ev"
       "epoch_count st1 = epoch_count st" "batch_count st1 = batch_count st + int (length (butlast bs))"
       "train_callbacks st1 = train_callbacks st"
    by auto
  have last: "train_batch D self st1 (last bs) = Returned st'"
    using assms(5) 1(1) by (subst (asm) split) (simp add: train_pass_append split: outcome.splits)
  have on: "(batch_count st1 + 1) mod ?s = 0" using 1(6) len assms(3) by (simp add: mod_add_eq)
  from train_batch_on_block[OF on _ last, of cbs] 1(7) assms(4) obtain ls cbs' where
    2: "trace st' = trace st1 @ [Log_batch (epoch_count st1) (batch_count st1 + 1) (ls ! 0)]
             @ map (\<lambda>j. Call_on_epoch_end j (epoch_count st1) (ls ! j)) [0 ..< length cbs]
             @ [Call_save (model_save_path self)]"
       "length ls = Suc (length cbs)" "length cbs' = length cbs"
       "\<forall>j<length cbs. on_epoch_end D (cbs ! j) (summarizer st') (epoch_count st1) (ls ! j)
                            = Inr (cbs' ! j, ls ! Suc j)"
       "logs st' = ls ! length cbs" "train_callbacks st' = Some cbs'"
       "epoch_count st' = epoch_count st1 + 1" "batch_count st' = batch_count st1 + 1"
    by auto
  let ?blogs = "blogs @ [Log_batch (epoch_count st) (batch_count st + ?s) (ls ! 0)]"
  have "length ?blogs = length bs" using 1(3) ne by simp
  moreover have "\<forall>ev\<in>set ?blogs. is_Log_batch ev" using 1(4) by simp
  moreover have "trace st' = trace st @ ?blogs
             @ map (\<lambda>j. Call_on_epoch_end j (epoch_count st) (ls ! j)) [0 ..< length cbs]
             @ [Call_save (model_save_path self)]"
    using 1 2 len by simp
  moreover have "batch_count st' = batch_count st + ?s" using 1 2 len by simp
  ultimately show ?thesis
    by (intro exI[of _ ?blogs] exI[of _ ls] exI[of _ cbs']) (use 1 2 in simp)
qed


text \<open>
  Claim C2. After each block of exactly \<open>steps_per_epoch\<close> pulled batches the loop invokes
  every registered callback's \<^verbatim>\<open>on_epoch_end\<close> hook, in list order, with the current logs
  mapping, then saves the model, then adds exactly one to \<open>epoch_count\<close>; with
  \<open>steps_per_epoch = 500\<close> and exactly 500 batches pulled the callbacks fire once each and
  \<open>epoch_count\<close> increases once.

  First, for every batch of a run that the loop body completes: if its number is a multiple
  of \<open>steps_per_epoch\<close>, the events of the batch are its log line, then one hook call per
  callback in list order, then one save; the first hook gets the logs as the batch left them,
  each later hook the logs as the hook before it returned them, the logs after the batch are
  those the last hook returned, and \<open>epoch_count\<close> grows by one. If its number is not a
  multiple, the batch logs its line and nothing else happens: no hook, no save, the same
  \<open>epoch_count\<close>.

  Second, for a pass \<open>bs\<close> of \<open>steps_per_epoch\<close> batches (500, say) that starts on a block
  boundary and runs to its end: its events are the \<open>steps_per_epoch\<close> batch log lines, then
  one hook call per callback, then one save, and \<open>epoch_count\<close> grows by one.
\<close>

theorem epoch_end_block:
  "(train_callbacks st = Some cbs \<and> train_batch D self st b = Returned st' \<longrightarrow>
      (if (batch_count st + 1) mod steps_per_epoch self = 0
       then \<exists>ls cbs'.
              trace st' = trace st @ [Log_batch (epoch_count st) (batch_count st + 1) (ls ! 0)]
                @ map (\<lambda>j. Call_on_epoch_end j (epoch_count st) (ls ! j)) [0 ..< length cbs]
                @ [Call_save (model_save_path self)] \<and>
              length ls = Suc (length cbs) \<and> length cbs' = length cbs \<and>
              (\<forall>j<length cbs. on_epoch_end D (cbs ! j) (summarizer st') (epoch_count st) (ls ! j)
                               = Inr (cbs' ! j, ls ! Suc j)) \<and>
              logs st' = ls ! length cbs \<and> train_callbacks st' = Some cbs' \<and>
              epoch_count st' = epoch_count st + 1
       else \<exists>lg. trace st' = trace st @ [Log_batch (epoch_count st) (batch_count st + 1) lg] \<and>
              logs st' = lg \<and> train_callbacks st' = Some cbs \<and>
              epoch_count st' = epoch_count st))
   \<and> (0 < steps_per_epoch self \<and> int (length bs) = steps_per_epoch self \<and>
        batch_count st mod steps_per_epoch self = 0 \<and> train_callbacks st = Some cbs \<and>
        train_pass D self st bs = Returned st'' \<longrightarrow>
        (\<exists>blogs ls cbs'.
           trace st'' = trace st @ blogs
             @ map (\<lambda>j. Call_on_epoch_end j (epoch_count st) (ls ! j)) [0 ..< length cbs]
             @ [Call_save (model_save_path self)] \<and>
           length blogs = length bs \<and> (\<forall>ev\<in>set blogs. is_Log_batch ev) \<and>
           last blogs = Log_batch (epoch_count st) (batch_count st + steps_per_epoch self) (ls ! 0) \<and>
           length ls = Suc (length cbs) \<and> length cbs' = length cbs \<and>
           (\<forall>j<length cbs. on_epoch_end D (cbs ! j) (summarizer st'') (epoch_count st) (ls ! j)
                            = Inr (cbs' ! j, ls ! Suc j)) \<and>
           logs st'' = ls ! length cbs \<and> train_callbacks st'' = Some cbs' \<and>
           epoch_count st'' = epoch_count st + 1 \<and>
           batch_count st'' = batch_count st + steps_per_epoch self))"
proof (intro conjI impI)
  assume a: "train_callbacks st = Some cbs \<and> train_batch D self st b = Returned st'"
  then have ret: "train_batch D self st b = Returned st'" and cbs: "train_callbacks st = Some cbs"
    by simp_all
  have s: "steps_per_epoch self \<noteq> 0" using train_batch_Returned(2)[OF ret] .
  show "if (batch_count st + 1) mod steps_per_epoch self = 0
       then \<exists>ls cbs'.
              trace st' = trace st @ [Log_batch (epoch_count st) (batch_count st + 1) (ls ! 0)]
                @ map (\<lambda>j. Call_on_epoch_end j (epoch_count st) (ls ! j)) [0 ..< length cbs]
                @ [Call_save (model_save_path self)] \<and>
              length ls = Suc (length cbs) \<and> length cbs' = length cbs \<and>
              (\<forall>j<length cbs. on_epoch_end D (cbs ! j) (summarizer st') (epoch_count st) (ls ! j)
                               = Inr (cbs' ! j, ls ! Suc j)) \<and>
              logs st' = ls ! length cbs \<and> train_callbacks st' = Some cbs' \<and>
              epoch_count st' = epoch_count st + 1
       else \<exists>lg. trace st' = trace st @ [Log_batch (epoch_count st) (batch_count st + 1) lg] \<and>
              logs st' = lg \<and> train_callbacks st' = Some cbs \<and>
              epoch_count st' = epoch_count st"
  proof (cases "(batch_count st + 1) mod steps_per_epoch self = 0")
    case True
    from train_batch_on_block[OF True cbs ret] obtain ls cbs' where
      "trace st' = trace st @ [Log_batch (epoch_count st) (batch_count st + 1) (ls ! 0)]
                @ map (\<lambda>j. Call_on_epoch_end j (epoch_count st) (ls ! j)) [0 ..< length cbs]
                @ [Call_save (model_save_path self)] \<and>
              length ls = Suc (length cbs) \<and> length cbs' = length cbs \<and>
              (\<forall>j<length cbs. on_epoch_end D (cbs ! j) (summarizer st') (epoch_count st) (ls ! j)
                               = Inr (cbs' ! j, ls ! Suc j)) \<and>
              logs st' = ls ! length cbs \<and> train_callbacks st' = Some cbs' \<and>
              epoch_count st' = epoch_count st + 1"
      by (elim exE conjE) (rule that, intro conjI)
    then show ?thesis unfolding if_P[OF True] by (intro exI[of _ ls] exI[of _ cbs'])
  next
    case False
    from train_batch_off_block[OF s False, of D b] obtain st1 lg where
      1: "train_batch D self st b = Returned st1"
         "trace st1 = trace st @ [Log_batch (epoch_count st) (batch_count st + 1) lg]"
         "epoch_count st1 = epoch_count st" "train_callbacks st1 = train_callbacks st"
         "logs st1 = lg"
      by (elim exE conjE) (rule that)
    from 1(1) ret have "st1 = st'" by simp
    with 1 cbs show ?thesis unfolding if_not_P[OF False] by (intro exI[of _ lg]) simp
  qed
next
  assume "0 < steps_per_epoch self \<and> int (length bs) = steps_per_epoch self \<and>
        batch_count st mod steps_per_epoch self = 0 \<and> train_callbacks st = Some cbs \<and>
        train_pass D self st bs = Returned st''"
  then have h: "0 < steps_per_epoch self" "int (length bs) = steps_per_epoch self"
    "batch_count st mod steps_per_epoch self = 0" "train_callbacks st = Some cbs"
    "train_pass D self st bs = Returned st''"
    by simp_all
  show "\<exists>blogs ls cbs'.
           trace st'' = trace st @ blogs
             @ map (\<lambda>j. Call_on_epoch_end j (epoch_count st) (ls ! j)) [0 ..< length cbs]
             @ [Call_save (model_save_path self)] \<and>
           length blogs = length bs \<and> (\<forall>ev\<in>set blogs. is_Log_batch ev) \<and>
           last blogs = Log_batch (epoch_count st) (batch_count st + steps_per_epoch self) (ls ! 0) \<and>
           length ls = Suc (length cbs) \<and> length cbs' = length cbs \<and>
           (\<forall>j<length cbs. on_epoch_end D (cbs ! j) (summarizer st'') (epoch_count st) (ls ! j)
                            = Inr (cbs' ! j, ls ! Suc j)) \<and>
           logs st'' = ls ! length cbs \<and> train_callbacks st'' = Some cbs' \<and>
           epoch_count st'' = epoch_count st + 1 \<and>
           batch_count st'' = batch_count st + steps_per_epoch self"
    by (rule train_pass_block[OF h])
qed


theorem epoch_end_block_witness:
  "epoch_count (state_of (train_pass example_collaborators (example_trainer 500 10) example_state
      (replicate 500 0))) = 1
   \<and> batch_count (state_of (train_pass example_collaborators (example_trainer 500 10) example_state
      (replicate 500 0))) = 500
   \<and> length (filter is_Call_on_epoch_end (trace (state_of (train_pass example_collaborators
      (example_trainer 500 10) example_state (replicate 500 0))))) = 4
   \<and> length (filter is_Call_save (trace (state_of (train_pass example_collaborators
      (example_trainer 500 10) example_state (replicate 500 0))))) = 1"
proof -
  let ?D = example_collaborators and ?self = "example_trainer 500 10"
  let ?cbs = "[''evaluation'', ''validation'', ''checkpoint'', ''tensorboard'']"
  let ?r = "train_pass ?D ?self example_state (replicate 500 0)"
  have "is_Returned ?r"
    by (rule train_pass_returns)
       (simp_all add: example_collaborators_def example_trainer_def example_state_def)
  then have ret: "?r = Returned (state_of ?r)" by (cases ?r) simp_all
  have h: "0 < steps_per_epoch ?self" "int (length (replicate 500 (0::nat))) = steps_per_epoch ?self"
    "batch_count example_state mod steps_per_epoch ?self = 0"
    "train_callbacks example_state = Some ?cbs"
    by (simp_all add: example_trainer_def example_state_def example_collaborators_def)
  from epoch_end_block[of example_state ?cbs ?D ?self, THEN conjunct2, rule_format, OF conjI[OF h(1) conjI[OF h(2) conjI[OF h(3) conjI[OF h(4) ret]]]]]
  obtain blogs ls where
    tr: "trace (state_of ?r) = trace example_state @ blogs
             @ map (\<lambda>j. Call_on_epoch_end j (epoch_count example_state) (ls ! j)) [0 ..< length ?cbs]
             @ [Call_save (model_save_path ?self)]"
    and blogs: "\<forall>ev\<in>set blogs. is_Log_batch ev"
    and counts: "epoch_count (state_of ?r) = epoch_count example_state + 1"
      "batch_count (state_of ?r) = batch_count example_state + steps_per_epoch ?self"
    by blast
  have b1: "filter is_Call_on_epoch_end blogs = []" and b2: "filter is_Call_save blogs = []"
  proof -
    have "\<not> is_Call_on_epoch_end ev \<and> \<not> is_Call_save ev" if "is_Log_batch ev" for ev
      using that by (cases ev) simp_all
    with blogs show "filter is_Call_on_epoch_end blogs = []" "filter is_Call_save blogs = []"
      by (auto simp: filter_empty_conv)
  qed
  show ?thesis using tr counts b1 b2
    by (simp add: example_state_def example_trainer_def filter_map comp_def)
qed

section \<open>Termination\<close>




section \<open>Initialisation of a bare model\<close>

text \<open>
  Claim C8. \<^verbatim>\<open>train\<close> initialises the model through \<^verbatim>\<open>_init_model\<close> if and only if the
  summarizer's preprocessor or vectorizer is \<^verbatim>\<open>None\<close>; when both are attached, \<^verbatim>\<open>train\<close>
  leaves them unchanged.

  In the trace of a run, whatever its outcome and fuel: the line announcing the
  initialisation of a bare model is logged exactly for a bare summarizer;
  \<^verbatim>\<open>summarizer.init_model\<close> is called exactly when moreover \<^verbatim>\<open>_init_model\<close> gets that far
  (the trainer has a vectorizer or the corpus is not empty), and then the trainer's
  preprocessor and a vectorizer are attached at the end of the run; for an initialised
  summarizer both attributes are at the end of the run what they were at its start.
\<close>

theorem train_initializes_iff_bare:
  fixes D :: "('w, 'b, 'c) collaborators" and self :: Trainer and summ :: "'w Summarizer"
    and fuel :: nat and train_data val_data num_epochs callbacks
  defines "r \<equiv> train fuel D self summ train_data val_data num_epochs callbacks"
  shows "(Log_bare_model \<in> set (trace (state_of r)) \<longleftrightarrow> preprocessor summ = None \<or> vectorizer summ = None)
    \<and> (Call_init_model \<in> set (trace (state_of r)) \<longleftrightarrow>
         (preprocessor summ = None \<or> vectorizer summ = None) \<and>
         (self_vectorizer self \<noteq> None \<or> train_data \<noteq> []))
    \<and> (Call_init_model \<in> set (trace (state_of r)) \<longrightarrow>
         preprocessor (summarizer (state_of r)) = Some (self_preprocessor self) \<and>
         vectorizer (summarizer (state_of r)) \<noteq> None)
    \<and> (preprocessor summ \<noteq> None \<and> vectorizer summ \<noteq> None \<longrightarrow>
         preprocessor (summarizer (state_of r)) = preprocessor summ \<and>
         vectorizer (summarizer (state_of r)) = vectorizer summ)"
proof -
  let ?bare = "preprocessor summ = None \<or> vectorizer summ = None"
  show ?thesis
  proof (cases rule: train_entry[where D = D and self = self and summ = summ and td = train_data
        and vd = val_data and n = num_epochs and cbs = callbacks])
    case fails
    then show ?thesis by (simp add: r_def)
  next
    case (loop p v st)
    note 2 = loop
    have r: "r = train_loop fuel D self (dataset D p v train_data) num_epochs 0 st"
      using 2(2) by (simp add: r_def)
    from train_loop_frame[of fuel D self "dataset D p v train_data" num_epochs 0 st] r
    obtain evs' where frame:
      "preprocessor (summarizer (state_of r)) = preprocessor (summarizer st)"
      "vectorizer (summarizer (state_of r)) = vectorizer (summarizer st)"
      "trace (state_of r) = trace st @ evs'" "\<forall>ev\<in>set evs'. loop_event ev"
      by auto
    have notin: "Log_bare_model \<notin> set evs'" "Call_init_model \<notin> set evs'"
      using frame(4) by auto
    show ?thesis
    proof (cases ?bare)
      case False
      with 2(9) frame notin show ?thesis by (simp add: r_def[symmetric])
    next
      case True
      with 2(9) obtain evs where
        init: "init_model D self summ train_data = Inr (summarizer st, evs)"
          "trace st = Log_bare_model # evs"
        by auto
      from init_model_succeeds[of self train_data D summ] 2(1) True init(1)
      have "preprocessor (summarizer st) = Some (self_preprocessor self)"
        "vectorizer (summarizer st) \<noteq> None" "Call_init_model \<in> set evs"
        by auto
      with True 2(1) frame init(2) notin show ?thesis by (auto simp: r_def[symmetric])
    qed
  qed
qed

theorem train_initializes_iff_bare_witness:
  "Log_bare_model \<notin> set (trace (state_of (train 1 example_collaborators (example_trainer 2 10)
      initialized_summarizer [(''a'', ''b'')] None 1 (Some []))))
   \<and> Call_init_model \<notin> set (trace (state_of (train 1 example_collaborators (example_trainer 2 10)
      initialized_summarizer [(''a'', ''b'')] None 1 (Some []))))
   \<and> preprocessor (summarizer (state_of (train 1 example_collaborators (example_trainer 2 10)
      initialized_summarizer [(''a'', ''b'')] None 1 (Some [])))) = Some example_preprocessor
   \<and> vectorizer (summarizer (state_of (train 1 example_collaborators (example_trainer 2 10)
      initialized_summarizer [(''a'', ''b'')] None 1 (Some [])))) = Some example_vectorizer
   \<and> Log_bare_model \<in> set (trace (state_of (train 1 example_collaborators (example_trainer 2 10)
      bare_summarizer [(''a'', ''b'')] None 1 (Some []))))
   \<and> Call_init_model \<in> set (trace (state_of (train 1 example_collaborators (example_trainer 2 10)
      bare_summarizer [(''a'', ''b'')] None 1 (Some []))))
   \<and> preprocessor (summarizer (state_of (train 1 example_collaborators (example_trainer 2 10)
      bare_summarizer [(''a'', ''b'')] None 1 (Some [])))) = Some example_preprocessor"
  using train_initializes_iff_bare[of 1 example_collaborators "example_trainer 2 10"
      initialized_summarizer "[(''a'', ''b'')]" None 1 "Some []"]
    train_initializes_iff_bare[of 1 example_collaborators "example_trainer 2 10"
      bare_summarizer "[(''a'', ''b'')]" None 1 "Some []"]
  by (simp add: initialized_summarizer_def bare_summarizer_def example_trainer_def)

section \<open>The unbound callback list\<close>

text \<open>
  Claim C9. Called with \<^verbatim>\<open>callbacks=None\<close> and \<^verbatim>\<open>val_data=None\<close>, \<^verbatim>\<open>train\<close> never binds
  \<^verbatim>\<open>train_callbacks\<close>, and the run fails with an unbound-name error at the first multiple of
  \<open>steps_per_epoch\<close> pulled batches instead of training with an empty callback list.

  The run gets there when there is an epoch to train, \<open>steps_per_epoch\<close> is positive,
  initialisation (if any) succeeds, and the passes \<open>0, \<dots>, m\<close> over the dataset together yield
  at least \<open>steps_per_epoch\<close> batches, none of the passes before the last being empty. It then
  raises \<^verbatim>\<open>UnboundLocalError\<close> with \<open>batch_count = steps_per_epoch\<close> and \<open>epoch_count = 0\<close>,
  having called no hook and saved nothing.
\<close>

theorem train_without_callbacks_raises:
  assumes "0 < num_epochs" and "0 < steps_per_epoch self"
    and "preprocessor summ = None \<or> vectorizer summ = None \<longrightarrow>
           self_vectorizer self \<noteq> None \<or> train_data \<noteq> []"
    and "\<forall>p v. \<forall>j<m. dataset D p v train_data j \<noteq> []"
    and "\<forall>p v. steps_per_epoch self \<le> (\<Sum>j\<le>m. int (length (dataset D p v train_data j)))"
    and "m < fuel"
  shows "\<exists>st. train fuel D self summ train_data None num_epochs None
                = Raised (UnboundLocalError ''train_callbacks'') st \<and>
              batch_count st = steps_per_epoch self \<and> epoch_count st = 0 \<and>
              (\<forall>ev\<in>set (trace st). quiet_event ev)"
proof (cases rule: train_entry[where D = D and self = self and summ = summ and td = train_data
        and vd = None and n = num_epochs and cbs = None])
  case fails
  with assms(3) show ?thesis by simp
next
  case (loop p v st)
  from assms(6) obtain d where fuel: "fuel = Suc m + d" using less_iff_Suc_add by auto
  have quiet: "\<forall>ev\<in>set (trace st). quiet_event ev"
  proof (cases "preprocessor summ = None \<or> vectorizer summ = None")
    case False
    with loop(9) show ?thesis by simp
  next
    case True
    with loop(9) obtain evs where
      init: "init_model D self summ train_data = Inr (summarizer st, evs)"
        "trace st = Log_bare_model # evs"
      by auto
    from init_model_succeeds[of self train_data D summ] loop(1) True init(1)
    have "\<forall>ev\<in>set evs. \<not> loop_event ev" by auto
    with init(2) show ?thesis by (auto intro: not_loop_event_quiet)
  qed
  have "\<exists>st' evs. train_loop (Suc m + d) D self (dataset D p v train_data) num_epochs 0 st
            = Raised (UnboundLocalError ''train_callbacks'') st' \<and>
           batch_count st' = steps_per_epoch self \<and> epoch_count st' = epoch_count st \<and>
           trace st' = trace st @ evs \<and> (\<forall>ev\<in>set evs. quiet_event ev)"
  proof (rule train_loop_unbound)
    show "0 < steps_per_epoch self" by fact
    show "train_callbacks st = None" using loop(8) by (simp add: bound_callbacks_def)
    show "0 \<le> batch_count st" "batch_count st < steps_per_epoch self" "epoch_count st < num_epochs"
      using loop assms by simp_all
    show "\<forall>j<m. dataset D p v train_data (0 + j) \<noteq> []" using assms(4) by simp
    show "steps_per_epoch self \<le> batch_count st + (\<Sum>j\<le>m. int (length (dataset D p v train_data (0 + j))))"
      using assms(5) loop(6) by simp
  qed
  then obtain st' evs where
    "train_loop (Suc m + d) D self (dataset D p v train_data) num_epochs 0 st
            = Raised (UnboundLocalError ''train_callbacks'') st'"
    "batch_count st' = steps_per_epoch self" "epoch_count st' = epoch_count st"
    "trace st' = trace st @ evs" "\<forall>ev\<in>set evs. quiet_event ev"
    by blast
  with loop(2,5) quiet fuel show ?thesis by (intro exI[of _ st']) auto
qed

theorem train_without_callbacks_raises_witness:
  "\<exists>st. train 2 example_collaborators (example_trainer 2 10) initialized_summarizer [(''a'', ''b'')]
           None 1 None = Raised (UnboundLocalError ''train_callbacks'') st \<and>
        batch_count st = 2 \<and> epoch_count st = 0"
proof -
  have "\<exists>st. train 2 example_collaborators (example_trainer 2 10) initialized_summarizer [(''a'', ''b'')]
           None 1 None = Raised (UnboundLocalError ''train_callbacks'') st \<and>
        batch_count st = steps_per_epoch (example_trainer 2 10) \<and> epoch_count st = 0 \<and>
        (\<forall>ev\<in>set (trace st). quiet_event ev)"
    by (rule train_without_callbacks_raises[where m = 1])
       (simp_all add: example_trainer_def example_collaborators_def initialized_summarizer_def)
  then show ?thesis by (auto simp: example_trainer_def)
qed

section \<open>Facts about vocabulary building\<close>

subsection \<open>Counting\<close>

lemma counter_add_distinct: "distinct (map fst cnt) \<Longrightarrow> distinct (map fst (counter_add cnt w))"
  by (simp add: counter_add_def distinct_update)

lemma counter_add_keys: "fst ` set (counter_add cnt w) = insert w (fst ` set cnt)"
  by (simp add: counter_add_def dom_update)

lemma counter_add_lookup:
  "map_of (counter_add cnt w) t =
     (if t = w then Some (case map_of cnt w of None \<Rightarrow> 1 | Some n \<Rightarrow> Suc n) else map_of cnt t)"
  by (simp add: counter_add_def update_conv')

lemma counter_update_distinct:
  "distinct (map fst cnt) \<Longrightarrow> distinct (map fst (counter_update cnt ws))"
  unfolding counter_update_def
  by (induction ws arbitrary: cnt) (simp_all add: counter_add_distinct)

lemma counter_update_keys: "fst ` set (counter_update cnt ws) = fst ` set cnt \<union> set ws"
  unfolding counter_update_def
  by (induction ws arbitrary: cnt) (auto simp: counter_add_keys)

lemma counter_update_lookup:
  "map_of (counter_update cnt ws) t =
     (case map_of cnt t of
        None \<Rightarrow> if t \<in> set ws then Some (count_list ws t) else None
      | Some n \<Rightarrow> Some (n + count_list ws t))"
  unfolding counter_update_def
proof (induction ws arbitrary: cnt)
  case Nil
  show ?case by (simp split: option.splits)
next
  case (Cons w ws)
  show ?case
    by (simp add: Cons.IH counter_add_lookup count_list_0_iff split: option.splits)
qed

lemma counter_update_append:
  "counter_update cnt (xs @ ys) = counter_update (counter_update cnt xs) ys"
  by (simp add: counter_update_def)

lemma counter_of_texts:
  "foldl (\<lambda>cnt text. counter_update cnt (split text)) cnt texts = counter_update cnt (tokens_of texts)"
  by (induction texts arbitrary: cnt)
     (simp_all add: tokens_of_def counter_update_append, simp add: counter_update_def)

lemma counter_member:
  assumes "distinct (map fst cnt)" and "(t, c) \<in> set cnt"
  shows "map_of cnt t = Some c"
  using assms by simp

subsection \<open>The most common tokens\<close>

lemma sorted_take_drop:
  assumes "sorted (map f ys)" and "x \<in> set (take n ys)" and "y \<in> set (drop n ys)"
  shows "f x \<le> f y"
proof -
  have "sorted (map f (take n ys) @ map f (drop n ys))"
    using assms(1) by (simp flip: map_append)
  then show ?thesis using assms(2,3) by (auto simp: sorted_append)
qed

lemma most_common_top:
  fixes toks :: "string list" and cnt :: counter and n :: int
  assumes cnt: "distinct (map fst cnt)" "fst ` set cnt = set toks"
    "\<forall>t\<in>set toks. map_of cnt t = Some (count_list toks t)"
  defines "chosen \<equiv> fst ` set (most_common cnt n)"
  shows "chosen \<subseteq> set toks"
    and "card chosen = min (nat n) (card (set toks))"
    and "\<forall>t\<in>chosen. \<forall>u\<in>set toks - chosen. count_list toks u \<le> count_list toks t"
proof -
  let ?key = "\<lambda>tc :: string \<times> nat. - int (snd tc)"
  let ?ys = "sort_key ?key cnt"
  have mc: "most_common cnt n = take (nat n) ?ys" by (simp add: most_common_def)
  have dist_ys: "distinct (map fst ?ys)"
    using cnt(1) by (simp add: distinct_map)
  show sub: "chosen \<subseteq> set toks"
    using cnt(2) set_take_subset[of "nat n" ?ys] by (auto simp: chosen_def mc)
  have "distinct (map fst (take (nat n) ?ys))"
    using dist_ys by (simp add: take_map[symmetric] distinct_take)
  then have "card chosen = length (take (nat n) ?ys)"
    unfolding chosen_def mc by (metis distinct_card length_map image_set)
  moreover have "length cnt = card (set toks)"
    by (metis cnt(2) cnt(1) distinct_card list.set_map length_map)
  ultimately show "card chosen = min (nat n) (card (set toks))" by simp
  show "\<forall>t\<in>chosen. \<forall>u\<in>set toks - chosen. count_list toks u \<le> count_list toks t"
  proof (intro ballI)
    fix t u assume t: "t \<in> chosen" and u: "u \<in> set toks - chosen"
    from t obtain c where tc: "(t, c) \<in> set (take (nat n) ?ys)" by (auto simp: chosen_def mc)
    then have "(t, c) \<in> set cnt" using set_take_subset[of "nat n" ?ys] by auto
    then have c: "c = count_list toks t" using cnt sub t by fastforce
    have "u \<in> fst ` set cnt" using u cnt(2) by simp
    then obtain c' where uc: "(u, c') \<in> set cnt" by force
    then have c': "c' = count_list toks u" using cnt u by fastforce
    have "(u, c') \<notin> set (take (nat n) ?ys)" using u by (force simp: chosen_def mc)
    moreover have "(u, c') \<in> set (take (nat n) ?ys @ drop (nat n) ?ys)" using uc by simp
    ultimately have "(u, c') \<in> set (drop (nat n) ?ys)" by (simp only: set_append Un_iff) simp
    from sorted_take_drop[OF _ tc this, of ?key] have "?key (t, c) \<le> ?key (u, c')"
      by simp
    then show "count_list toks u \<le> count_list toks t" using c c' by simp
  qed
qed

subsection \<open>Tokens and the tokenizer\<close>

lemma isspace_space: "isspace (CHR '' '')"
  by (simp add: isspace_def)

lemma split_acc_atomic:
  "(\<forall>c\<in>set cur. \<not> isspace c) \<Longrightarrow> \<forall>t\<in>set (split_acc cur s). atomic t"
proof (induction s arbitrary: cur)
  case Nil
  then show ?case by (simp add: atomic_def)
next
  case (Cons c s)
  show ?case
  proof (cases "isspace c")
    case True
    have "\<forall>t\<in>set (split_acc [] s). atomic t" by (rule Cons.IH) simp
    with True Cons.prems show ?thesis by (simp add: atomic_def)
  next
    case False
    have "\<forall>t\<in>set (split_acc (cur @ [c]) s). atomic t"
      by (rule Cons.IH) (use False Cons.prems in simp)
    with False show ?thesis by simp
  qed
qed

lemma split_atomic: "t \<in> set (split s) \<Longrightarrow> atomic t"
  using split_acc_atomic[of "[]" s] by (simp add: split_def)

lemma tokens_of_atomic: "t \<in> set (tokens_of texts) \<Longrightarrow> atomic t"
  by (auto simp: tokens_of_def split_atomic)

lemma reserved_atomic: "atomic START_TOKEN" "atomic END_TOKEN"
  by (simp_all add: atomic_def START_TOKEN_def END_TOKEN_def isspace_def)

lemma split_on_no_sep: "sep \<notin> set cs \<Longrightarrow> split_on sep cur cs = [cur @ cs]"
  by (induction cs arbitrary: cur) auto

lemma text_to_word_sequence_atomic: "atomic t \<Longrightarrow> text_to_word_sequence t [] = [t]"
proof -
  assume a: "atomic t"
  then have "CHR '' '' \<notin> set t" using isspace_space by (auto simp: atomic_def)
  then have "split_on (CHR '' '') [] t = [t]" using split_on_no_sep[of "CHR '' ''" t "[]"] by simp
  with a show ?thesis by (simp add: text_to_word_sequence_def atomic_def)
qed

lemma update_fresh: "k \<notin> fst ` set al \<Longrightarrow> AList.update k v al = al @ [(k, v)]"
  by (induction al) auto

lemma counter_add_fresh: "w \<notin> fst ` set cnt \<Longrightarrow> counter_add cnt w = cnt @ [(w, 1)]"
proof -
  assume f: "w \<notin> fst ` set cnt"
  then have "map_of cnt w = None" by (simp add: map_of_eq_None_iff)
  with f show ?thesis by (simp add: counter_add_def update_fresh)
qed

lemma count_atomic_texts:
  assumes "distinct S" and "set S \<inter> fst ` set cnt = {}" and "\<forall>t\<in>set S. atomic t"
  shows "foldl (\<lambda>cnt text. counter_update cnt (text_to_word_sequence text [])) cnt S
           = cnt @ map (\<lambda>t. (t, 1)) S"
  using assms
proof (induction S arbitrary: cnt)
  case Nil
  show ?case by simp
next
  case (Cons t S)
  have t: "t \<notin> fst ` set cnt" "atomic t" using Cons.prems by auto
  have step: "counter_update cnt (text_to_word_sequence t []) = cnt @ [(t, 1)]"
    using t by (simp add: text_to_word_sequence_atomic counter_update_def counter_add_fresh)
  have "foldl (\<lambda>cnt text. counter_update cnt (text_to_word_sequence text [])) (cnt @ [(t, 1)]) S
          = (cnt @ [(t, 1)]) @ map (\<lambda>t. (t, 1)) S"
    by (rule Cons.IH) (use Cons.prems in auto)
  with step show ?case by simp
qed

lemma sort_key_same_key:
  "\<forall>x\<in>set xs. f x = c \<Longrightarrow> sort_key f xs = xs"
proof (induction xs)
  case Nil
  show ?case by simp
next
  case (Cons x xs)
  then have "sort_key f xs = xs" by simp
  moreover have "insort_key f x xs = x # xs" using Cons.prems by (intro insort_is_Cons) simp
  ultimately show ?case by simp
qed

lemma fit_on_sorted_tokens:
  assumes "distinct S" and "\<forall>t\<in>set S. atomic t"
  shows "word_index (fit_on_texts (new_Tokenizer (Some oov) []) S)
           = dict_of (zip (oov # S) [1 ..< length S + 2])"
proof -
  have wc: "foldl (\<lambda>cnt text. counter_update cnt (text_to_word_sequence text [])) [] S
              = map (\<lambda>t. (t, 1)) S"
    using count_atomic_texts[OF assms(1) _ assms(2), of "[]"] by simp
  have "sort_key (\<lambda>x. - int (snd x)) (map (\<lambda>t. (t, 1::nat)) S) = map (\<lambda>t. (t, 1)) S"
    by (rule sort_key_same_key[where c = "- 1"]) auto
  with wc show ?thesis
    by (simp add: fit_on_texts_def new_Tokenizer_def Let_def comp_def)
qed

subsection \<open>The word index\<close>

lemma dict_of_fold:
  "map_of (foldl (\<lambda>d kv. AList.update (fst kv) (snd kv) d) d0 kvs) = map_of d0 ++ map_of (rev kvs)"
  by (induction kvs arbitrary: d0) (simp_all add: update_conv' map_add_upd_left flip: map_add_assoc, auto simp: map_add_def fun_eq_iff split: option.splits)

lemma dict_of_lookup: "map_of (dict_of kvs) = map_of (rev kvs)"
  by (simp add: dict_of_def dict_of_fold)

lemma dict_of_fold_distinct:
  "distinct (map fst d0) \<Longrightarrow> distinct (map fst (foldl (\<lambda>d kv. AList.update (fst kv) (snd kv) d) d0 kvs))"
  by (induction kvs arbitrary: d0) (simp_all add: distinct_update)

lemma dict_of_distinct: "distinct (map fst (dict_of kvs))"
  by (simp add: dict_of_def dict_of_fold_distinct)

lemma dict_of_fold_keys:
  "fst ` set (foldl (\<lambda>d kv. AList.update (fst kv) (snd kv) d) d0 kvs) = fst ` set d0 \<union> fst ` set kvs"
  by (induction kvs arbitrary: d0) (auto simp: dom_update)

lemma dict_of_keys: "fst ` set (dict_of kvs) = fst ` set kvs"
  by (simp add: dict_of_def dict_of_fold_keys)

lemma map_of_rev_distinct: "distinct (map fst zs) \<Longrightarrow> map_of (rev zs) = map_of zs"
  by (metis distinct_rev rev_map map_of_inject_set set_rev)

lemma word_index_ids:
  fixes voc :: "string list" and oov :: string
  assumes "distinct voc"
  defines "wi \<equiv> dict_of (zip (oov # voc) [1 ..< length voc + 2])"
  shows "fst ` set wi = insert oov (set voc)"
    and "distinct (map fst wi)"
    and "\<forall>i<length voc. map_of wi (voc ! i) = Some (i + 2)"
    and "oov \<notin> set voc \<longrightarrow> map_of wi oov = Some 1"
proof -
  define ys where "ys = [2 ..< length voc + 2]"
  have len: "length ys = length voc" by (simp add: ys_def del: upt_Suc)
  have nth: "ys ! i = i + 2" if "i < length voc" for i
    using that by (simp add: ys_def del: upt_Suc)
  have "[1 ..< length voc + 2] = 1 # ys"
    unfolding ys_def by (subst upt_rec) (simp add: numeral_2_eq_2 del: upt_Suc)
  then have wi: "wi = dict_of ((oov, 1) # zip voc ys)" by (simp add: wi_def)
  have keys: "map fst (zip voc ys) = voc" using len by (simp add: map_fst_zip)
  then have fst_set: "fst ` set (zip voc ys) = set voc" by (metis list.set_map)
  show "fst ` set wi = insert oov (set voc)"
    by (simp add: wi dict_of_keys fst_set)
  show "distinct (map fst wi)" by (simp add: wi dict_of_distinct)
  have "map_of (rev (zip voc ys)) = map_of (zip voc ys)"
    by (rule map_of_rev_distinct) (simp add: keys assms(1))
  then have lookup: "map_of wi k = (case map_of (zip voc ys) k of None \<Rightarrow> map_of [(oov, 1)] k | Some v \<Rightarrow> Some v)" for k
    by (simp add: wi dict_of_lookup map_add_def split: option.splits)
  show "\<forall>i<length voc. map_of wi (voc ! i) = Some (i + 2)"
  proof (intro allI impI)
    fix i assume i: "i < length voc"
    have "map_of (zip voc ys) (voc ! i) = Some (ys ! i)"
      by (rule map_of_zip_nth) (use assms(1) i len in simp_all)
    then show "map_of wi (voc ! i) = Some (i + 2)" using nth[OF i] by (simp add: lookup)
  qed
  show "oov \<notin> set voc \<longrightarrow> map_of wi oov = Some 1"
  proof
    assume "oov \<notin> set voc"
    then have "map_of (zip voc ys) oov = None" using fst_set by (simp add: map_of_eq_None_iff)
    then show "map_of wi oov = Some 1" by (simp add: lookup)
  qed
qed

subsection \<open>One side of the corpus\<close>

lemma valid_enumeration_sorted: "valid_enumeration sorted_list_of_set"
  by (simp add: valid_enumeration_def)

lemma valid_enumeration_rev: "valid_enumeration (\<lambda>S. rev (sorted_list_of_set S))"
  by (simp add: valid_enumeration_def)

lemma sort_enumeration:
  assumes "valid_enumeration lo" and "finite S"
  shows "sort (lo S) = sorted_list_of_set S"
proof -
  have "set (lo S) = S" "distinct (lo S)" using assms by (auto simp: valid_enumeration_def)
  then show ?thesis using sorted_list_of_set_sort_remdups[of "lo S"]
    by (simp add: distinct_remdups_id)
qed

lemma side_vocabulary:
  assumes "valid_enumeration lo"
  shows "is_vocabulary_of n texts
           (fit_on_texts (new_Tokenizer (Some OOV_TOKEN) [])
              (sort (lo (fst ` set (most_common
                   (foldl (\<lambda>cnt text. counter_update cnt (split text)) [] texts) n)
                 \<union> {START_TOKEN, END_TOKEN}))))"
proof -
  let ?toks = "tokens_of texts"
  let ?cnt = "counter_update [] ?toks"
  let ?chosen = "fst ` set (most_common ?cnt n)"
  let ?S = "?chosen \<union> {START_TOKEN, END_TOKEN}"
  let ?voc = "sorted_list_of_set ?S"
  have cnt: "distinct (map fst ?cnt)" "fst ` set ?cnt = set ?toks"
    "\<forall>t\<in>set ?toks. map_of ?cnt t = Some (count_list ?toks t)"
    by (simp_all add: counter_update_distinct counter_update_keys counter_update_lookup)
  note top = most_common_top[OF cnt, of n]
  have fin: "finite ?S" by simp
  have "distinct ?voc" by (rule distinct_sorted_list_of_set)
  moreover have "set ?voc = ?S" using fin by (rule set_sorted_list_of_set)
  ultimately have voc: "distinct ?voc" "set ?voc = ?S" .
  have "\<forall>t\<in>set ?voc. atomic t"
    using top(1) voc(2) tokens_of_atomic reserved_atomic by auto
  from fit_on_sorted_tokens[OF voc(1) this, of OOV_TOKEN]
  have wi: "word_index (fit_on_texts (new_Tokenizer (Some OOV_TOKEN) []) ?voc)
          = dict_of (zip (OOV_TOKEN # ?voc) [1 ..< length ?voc + 2])" .
  note ids = word_index_ids[OF voc(1), of OOV_TOKEN, folded wi]
  have "is_vocabulary_of n texts (fit_on_texts (new_Tokenizer (Some OOV_TOKEN) []) ?voc)"
    unfolding is_vocabulary_of_def Let_def
    by (rule exI[of _ ?chosen]) (use top ids in simp)
  then show ?thesis
    by (simp only: counter_of_texts sort_enumeration[OF assms fin])
qed


lemma create_tokenizers_sides:
  assumes "valid_enumeration lo" and "data \<noteq> []"
  shows "create_tokenizers lo self data =
           Inr (fit_on_texts (new_Tokenizer (Some OOV_TOKEN) [])
                  (sorted_list_of_set (fst ` set (most_common
                     (counter_update [] (tokens_of (map fst data))) (max_vocab_size self))
                     \<union> {START_TOKEN, END_TOKEN})),
                fit_on_texts (new_Tokenizer (Some OOV_TOKEN) [])
                  (sorted_list_of_set (fst ` set (most_common
                     (counter_update [] (tokens_of (map snd data))) (max_vocab_size self))
                     \<union> {START_TOKEN, END_TOKEN})))"
proof -
  have "sort (lo (fst ` set (most_common cnt n) \<union> {START_TOKEN, END_TOKEN}))
          = sorted_list_of_set (fst ` set (most_common cnt n) \<union> {START_TOKEN, END_TOKEN})" for cnt n
    by (rule sort_enumeration[OF assms(1)]) simp
  with assms(2) show ?thesis
    by (simp add: create_tokenizers_def unzip_pairs_def Let_def counter_of_texts)
qed


section \<open>The vocabulary claims\<close>

text \<open>
  Claim C4. Vocabulary building on an empty corpus fails with an error (the specification's
  EmptyCorpusError): in the code it is the \<^verbatim>\<open>ValueError\<close> of unpacking \<^verbatim>\<open>zip(*[])\<close> into two
  names. It is raised by \<^verbatim>\<open>_create_tokenizers\<close> itself, by \<^verbatim>\<open>_init_model\<close> when the trainer
  has no vectorizer of its own, and so by \<^verbatim>\<open>train\<close> on a summarizer without vectorizer.
\<close>

theorem empty_corpus_fails:
  "create_tokenizers lo self [] = Inl (ValueError ''not enough values to unpack (expected 2, got 0)'')
   \<and> init_model D (self\<lparr>self_vectorizer := None\<rparr>) summ []
        = Inl (ValueError ''not enough values to unpack (expected 2, got 0)'', [])
   \<and> train fuel D (self\<lparr>self_vectorizer := None\<rparr>) (summ\<lparr>vectorizer := None\<rparr>) [] val_data
        num_epochs callbacks
        = Raised (ValueError ''not enough values to unpack (expected 2, got 0)'')
            \<lparr>summarizer = summ\<lparr>vectorizer := None\<rparr>, train_callbacks = None, logs = [],
             epoch_count = 0, batch_count = 0, trace = [Log_bare_model]\<rparr>"
  by (simp add: create_tokenizers_empty init_model_fails train_def)

text \<open>
  Claim C5. For every non-empty corpus, vocabulary building counts the whitespace-delimited
  tokens of each side on its own, selects the \<open>max_vocab_size\<close> most frequent ones, adds the
  start and end tokens, and assigns the ids in the order of the sorted token list, for the
  encoder side from the sources and for the decoder side from the targets.
\<close>

theorem create_tokenizers_vocabularies:
  assumes "valid_enumeration lo" and "train_data_preprocessed \<noteq> []"
  shows "\<exists>te td. create_tokenizers lo self train_data_preprocessed = Inr (te, td) \<and>
           is_vocabulary_of (max_vocab_size self) (map fst train_data_preprocessed) te \<and>
           is_vocabulary_of (max_vocab_size self) (map snd train_data_preprocessed) td"
proof -
  have "is_vocabulary_of (max_vocab_size self) texts
          (fit_on_texts (new_Tokenizer (Some OOV_TOKEN) [])
             (sorted_list_of_set (fst ` set (most_common
                (counter_update [] (tokens_of texts)) (max_vocab_size self))
                \<union> {START_TOKEN, END_TOKEN})))" for texts
    using side_vocabulary[OF valid_enumeration_sorted, of "max_vocab_size self" texts]
    by (simp only: counter_of_texts sort_enumeration[OF valid_enumeration_sorted] finite_Un finite_imageI finite_set finite.intros)
  then show ?thesis
    by (simp only: create_tokenizers_sides[OF assms]) blast
qed

theorem create_tokenizers_vocabularies_witness:
  "\<exists>te td. create_tokenizers sorted_list_of_set (example_trainer 2 2)
              (map example_preprocessor example_corpus) = Inr (te, td) \<and>
     is_vocabulary_of 2 (map fst (map example_preprocessor example_corpus)) te \<and>
     is_vocabulary_of 2 (map snd (map example_preprocessor example_corpus)) td \<and>
     word_index te = [(''<unk>'', 1), (''<end>'', 2), (''<start>'', 3), (''b'', 4)] \<and>
     word_index td = [(''<unk>'', 1), (''<end>'', 2), (''<start>'', 3), (''x'', 4)]"
proof -
  have ne: "map example_preprocessor example_corpus \<noteq> []" by (simp add: example_corpus_def)
  from create_tokenizers_vocabularies[OF valid_enumeration_sorted ne, of "example_trainer 2 2"]
  obtain te td where
    1: "create_tokenizers sorted_list_of_set (example_trainer 2 2)
              (map example_preprocessor example_corpus) = Inr (te, td)"
       "is_vocabulary_of 2 (map fst (map example_preprocessor example_corpus)) te"
       "is_vocabulary_of 2 (map snd (map example_preprocessor example_corpus)) td"
    by (auto simp: example_trainer_def)
  have "map (\<lambda>r. (word_index (fst r), word_index (snd r)))
          [projr (create_tokenizers sorted_list_of_set (example_trainer 2 2)
                    (map example_preprocessor example_corpus))]
        = [([(''<unk>'', 1), (''<end>'', 2), (''<start>'', 3), (''b'', 4)],
            [(''<unk>'', 1), (''<end>'', 2), (''<start>'', 3), (''x'', 4)])]"
    by code_simp
  with 1 show ?thesis by simp
qed

text \<open>
  Claim C6. Vocabulary building is idempotent: two runs on the same corpus with the same
  \<open>max_vocab_size\<close> give the same tokenizers, hence the same token-to-id mappings, on both
  sides. Two runs can differ only in the order in which the token sets are enumerated; the
  result does not depend on it.
\<close>

theorem create_tokenizers_deterministic:
  assumes "valid_enumeration lo1" and "valid_enumeration lo2"
  shows "create_tokenizers lo1 self train_data_preprocessed
           = create_tokenizers lo2 self train_data_preprocessed"
proof (cases "train_data_preprocessed = []")
  case True
  then show ?thesis by (simp add: create_tokenizers_empty)
next
  case False
  show ?thesis
    unfolding create_tokenizers_sides[OF assms(1) False] create_tokenizers_sides[OF assms(2) False]
    by (rule refl)
qed

theorem create_tokenizers_deterministic_witness:
  "create_tokenizers sorted_list_of_set (example_trainer 2 2) (map example_preprocessor example_corpus)
     = create_tokenizers (\<lambda>S. rev (sorted_list_of_set S)) (example_trainer 2 2)
         (map example_preprocessor example_corpus)"
  by (rule create_tokenizers_deterministic[OF valid_enumeration_sorted valid_enumeration_rev])




section \<open>The evaluation callback\<close>







end
